theory Spec2Isabelle
  imports Main
begin

section \<open>Data model (common/hooks.ts)\<close>

text \<open>The closed enumeration \<^verbatim>\<open>HookType\<close> and the string value of each member.\<close>

datatype HookType =
    PreCopilotPrompt
  | PreContextAttach
  | PreCommit
  | PrePush
  | PrePull
  | PostCopilotResponse
  | WorkspaceOpen
  | FileSave

fun hookTypeValue :: "HookType \<Rightarrow> string" where
  "hookTypeValue PreCopilotPrompt = ''pre-copilot-prompt''"
| "hookTypeValue PreContextAttach = ''pre-context-attach''"
| "hookTypeValue PreCommit = ''pre-commit''"
| "hookTypeValue PrePush = ''pre-push''"
| "hookTypeValue PrePull = ''pre-pull''"
| "hookTypeValue PostCopilotResponse = ''post-copilot-response''"
| "hookTypeValue WorkspaceOpen = ''workspace-open''"
| "hookTypeValue FileSave = ''file-save''"

text \<open>\<^verbatim>\<open>Object.values(HookType)\<close>, in declaration order.\<close>

definition hookTypeValues :: "HookType list" where
  "hookTypeValues = [PreCopilotPrompt, PreContextAttach, PreCommit, PrePush, PrePull,
     PostCopilotResponse, WorkspaceOpen, FileSave]"

text \<open>
  \<^verbatim>\<open>IHookConfiguration\<close>: every property is optional. A configuration is a JavaScript
  object, so the registry holds references to it: a \<open>hook\<close> is the address of the object
  paired with its content. The service never writes to a configuration object.
\<close>

record IHookConfiguration =
  script :: "string option"
  command :: "string option"
  args :: "string list option"
  timeout :: "int option"
  abortOnFailure :: "bool option"
  async :: "bool option"
  cwd :: "string option"
  env :: "(string \<times> string) list option"

type_synonym ref = nat

type_synonym hook = "ref \<times> IHookConfiguration"

text \<open>Values of type \<^verbatim>\<open>any\<close> read from the settings or parsed from the hooks file. An object
  carries its address, since the loader registers the parsed objects themselves.\<close>

datatype json =
    JNull
  | JBool bool
  | JNumber int
  | JString string
  | JArray "json list"
  | JObject ref "(string \<times> json) list"

record IHookResult =
  exitCode :: int
  stdout :: string
  stderr :: string
  success :: bool
  executionTime :: int

record IHookContext =
  hookType :: HookType
  workspaceUri :: "string option"
  data :: "json option"
  fileUri :: "string option"

record IHookExecutionEvent =
  eventHookType :: HookType
  configuration :: hook
  result :: IHookResult
  eventContext :: IHookContext

section \<open>The registry (browser/hooksService.ts)\<close>

text \<open>
  \<^verbatim>\<open>_registeredHooks\<close> is a \<^verbatim>\<open>Map<HookType, IHookConfiguration[]>\<close>. Its values are mutable
  arrays, and the closure returned by \<^verbatim>\<open>registerHook\<close> keeps the array it pushed to, whether
  or not the map still holds it. So the arrays live in a store, and the map holds addresses.
\<close>

type_synonym addr = nat

record HooksService =
  registeredHooks :: "HookType \<Rightarrow> addr option"
  arrays :: "addr \<Rightarrow> hook list"
  nextArray :: addr

definition newHooksService :: HooksService where
  "newHooksService = \<lparr>registeredHooks = (\<lambda>_. None), arrays = (\<lambda>_. []), nextArray = 0\<rparr>"

text \<open>\<^verbatim>\<open>Array.prototype.indexOf\<close> on an array of objects: strict equality is equality of
  references; \<open>-1\<close> when there is none.\<close>

fun indexOfFrom :: "int \<Rightarrow> hook list \<Rightarrow> hook \<Rightarrow> int" where
  "indexOfFrom i [] c = -1"
| "indexOfFrom i (x # xs) c = (if fst x = fst c then i else indexOfFrom (i + 1) xs c)"

definition indexOf :: "hook list \<Rightarrow> hook \<Rightarrow> int" where
  "indexOf xs c = indexOfFrom 0 xs c"

text \<open>\<^verbatim>\<open>xs.splice(index, 1)\<close> for an index within the array.\<close>

definition splice1 :: "'a list \<Rightarrow> nat \<Rightarrow> 'a list" where
  "splice1 xs i = take i xs @ drop (Suc i) xs"

text \<open>
  The handle returned by \<^verbatim>\<open>registerHook\<close>. The closure captures the array \<^verbatim>\<open>hooks\<close>, the
  \<^verbatim>\<open>configuration\<close> and the \<^verbatim>\<open>hookType\<close> (used in the log message only).
\<close>

record IDisposable =
  capturedHooks :: addr
  capturedConfiguration :: hook
  capturedHookType :: HookType
  didCall :: bool

text \<open>Calls of the log service have no effect on the service and are left out.\<close>

definition registerHook :: "HookType \<Rightarrow> hook \<Rightarrow> HooksService \<Rightarrow> IDisposable \<times> HooksService" where
  "registerHook ty config s =
     (let (hooks, s1) =
            (case registeredHooks s ty of
               Some a \<Rightarrow> (a, s)
             | None \<Rightarrow>
                 (nextArray s,
                  s\<lparr>registeredHooks := (registeredHooks s)(ty \<mapsto> nextArray s),
                    arrays := (arrays s)(nextArray s := []),
                    nextArray := Suc (nextArray s)\<rparr>));
          s2 = s1\<lparr>arrays := (arrays s1)(hooks := arrays s1 hooks @ [config])\<rparr>
      in (\<lparr>capturedHooks = hooks, capturedConfiguration = config, capturedHookType = ty,
           didCall = False\<rparr>, s2))"

text \<open>The body of the closure passed to \<^verbatim>\<open>toDisposable\<close>.\<close>

definition unregister :: "IDisposable \<Rightarrow> HooksService \<Rightarrow> HooksService" where
  "unregister d s =
     (let hooks = arrays s (capturedHooks d);
          index = indexOf hooks (capturedConfiguration d)
      in if index \<noteq> -1
         then s\<lparr>arrays := (arrays s)(capturedHooks d := splice1 hooks (nat index))\<rparr>
         else s)"

text \<open>
  Modelled from the spec: \<^verbatim>\<open>toDisposable\<close> of \<^verbatim>\<open>base/common/lifecycle\<close>, which is not among the
  sources. The spec says of the handle that "invoking it twice is a no-op the second time":
  the handle runs the function it wraps on its first invocation only. The flag \<open>didCall\<close> is
  the state of the handle; \<open>dispose\<close> returns the handle as it is after the call.
\<close>

definition dispose :: "IDisposable \<Rightarrow> HooksService \<Rightarrow> IDisposable \<times> HooksService" where
  "dispose d s = (if didCall d then (d, s) else (d\<lparr>didCall := True\<rparr>, unregister d s))"

definition getHooks :: "HookType \<Rightarrow> HooksService \<Rightarrow> hook list" where
  "getHooks ty s = (case registeredHooks s ty of Some a \<Rightarrow> arrays s a | None \<Rightarrow> [])"

definition hasHooks :: "HookType \<Rightarrow> HooksService \<Rightarrow> bool" where
  "hasHooks ty s = (case registeredHooks s ty of Some a \<Rightarrow> length (arrays s a) > 0 | None \<Rightarrow> False)"

definition clearHooks :: "HookType \<Rightarrow> HooksService \<Rightarrow> HooksService" where
  "clearHooks ty s = s\<lparr>registeredHooks := (registeredHooks s)(ty := None)\<rparr>"

section \<open>Execution (browser/hooksService.ts)\<close>

text \<open>
  What one call \<^verbatim>\<open>await this.executeHook(hook, context)\<close> can do: return a result, or throw.
  A thrown value is an \<^verbatim>\<open>Error\<close> with its message, or another value with its rendering by
  \<^verbatim>\<open>String\<close>. The call is the only place where the world outside the service (clock,
  processes) takes part, so the loop takes the call as a parameter over a world \<open>'w\<close>.
\<close>

datatype thrown = Error string | NonError string

datatype outcome = Returned IHookResult | Threw thrown

type_synonym 'w runner = "hook \<Rightarrow> IHookContext \<Rightarrow> 'w \<Rightarrow> outcome \<times> 'w"

text \<open>
  What an observer sees of one call of \<^verbatim>\<open>executeHooks\<close>, in order: the call of a hook, and
  the event given to \<^verbatim>\<open>_onHookExecuted.fire\<close>. \<^verbatim>\<open>fire\<close> hands the event to the listeners, which
  are outside the service, and is taken to return without throwing. One call of
  \<^verbatim>\<open>executeHooks\<close> is followed on its own: nothing else changes the registry while it waits.
\<close>

datatype action = Invoked hook | Published IHookExecutionEvent

text \<open>\<^verbatim>\<open>hook.abortOnFailure\<close> read as a condition: an absent property is falsy.\<close>

fun truthy :: "bool option \<Rightarrow> bool" where
  "truthy (Some b) = b"
| "truthy None = False"

text \<open>\<^verbatim>\<open>error instanceof Error ? error.message : String(error)\<close>\<close>

fun errorMessage :: "thrown \<Rightarrow> string" where
  "errorMessage (Error message) = message"
| "errorMessage (NonError rendering) = rendering"

definition errorResult :: "thrown \<Rightarrow> IHookResult" where
  "errorResult error =
     \<lparr>exitCode = -1, stdout = '''', stderr = errorMessage error, success = False,
      executionTime = 0\<rparr>"

text \<open>The \<^verbatim>\<open>for\<close> loop of \<^verbatim>\<open>executeHooks\<close>, with its \<^verbatim>\<open>try\<close> and \<^verbatim>\<open>catch\<close> branches and both
  \<^verbatim>\<open>break\<close>s. \<open>results\<close> is the array the loop pushes to.\<close>

fun executeHooksLoop ::
  "'w runner \<Rightarrow> HookType \<Rightarrow> IHookContext \<Rightarrow> hook list \<Rightarrow> IHookResult list \<Rightarrow> action list \<Rightarrow> 'w
     \<Rightarrow> IHookResult list \<times> action list \<times> 'w" where
  "executeHooksLoop executeHook ty ctx [] results trace w = (results, trace, w)"
| "executeHooksLoop executeHook ty ctx (hook # rest) results trace w =
     (case executeHook hook ctx w of
        (Returned r, w') \<Rightarrow>
          (let results' = results @ [r];
               trace' = trace @ [Invoked hook,
                 Published \<lparr>eventHookType = ty, configuration = hook, result = r,
                            eventContext = ctx\<rparr>]
           in if \<not> success r \<and> truthy (abortOnFailure (snd hook))
              then (results', trace', w')
              else executeHooksLoop executeHook ty ctx rest results' trace' w')
      | (Threw error, w') \<Rightarrow>
          (let results' = results @ [errorResult error];
               trace' = trace @ [Invoked hook,
                 Published \<lparr>eventHookType = ty, configuration = hook,
                            result = errorResult error, eventContext = ctx\<rparr>]
           in if truthy (abortOnFailure (snd hook))
              then (results', trace', w')
              else executeHooksLoop executeHook ty ctx rest results' trace' w'))"

text \<open>\<^verbatim>\<open>executeHooks\<close> over a given \<^verbatim>\<open>executeHook\<close>: the returned array, the observed actions and
  the world after the call. The registry is read and not written.\<close>

definition executeHooksWith ::
  "'w runner \<Rightarrow> HookType \<Rightarrow> IHookContext \<Rightarrow> HooksService \<Rightarrow> 'w
     \<Rightarrow> IHookResult list \<times> action list \<times> 'w" where
  "executeHooksWith executeHook ty ctx s w =
     executeHooksLoop executeHook ty ctx (getHooks ty s) [] [] w"

text \<open>\<^verbatim>\<open>hook.script || hook.command\<close> inside a template string: an empty string is falsy, and
  \<^verbatim>\<open>undefined\<close> prints as its name.\<close>

definition scriptOrCommand :: "IHookConfiguration \<Rightarrow> string" where
  "scriptOrCommand c =
     (case script c of
        Some s \<Rightarrow> if s \<noteq> [] then s else (case command c of Some k \<Rightarrow> k | None \<Rightarrow> ''undefined'')
      | None \<Rightarrow> (case command c of Some k \<Rightarrow> k | None \<Rightarrow> ''undefined''))"

text \<open>
  The private \<^verbatim>\<open>executeHook\<close> of the source: a simulation that always succeeds. Its world is
  the clock in milliseconds: both readings of \<^verbatim>\<open>Date.now()\<close> are taken before the wait, and
  \<^verbatim>\<open>timeout(100)\<close> lets 100 ms pass. \<open>timeoutMs\<close> is computed and not used, as in the source.
\<close>

definition executeHook :: "int runner" where
  "executeHook hook ctx now =
     (let startTime = now;
          timeoutMs = (case timeout (snd hook) of
                         Some t \<Rightarrow> if t \<noteq> 0 then t else 5000
                       | None \<Rightarrow> 5000);
          simulatedResult =
            \<lparr>exitCode = 0,
             stdout = ''Simulated execution of hook: '' @ scriptOrCommand (snd hook),
             stderr = '''', success = True, executionTime = now - startTime\<rparr>
      in (Returned simulatedResult, now + 100))"

definition executeHooks ::
  "HookType \<Rightarrow> IHookContext \<Rightarrow> HooksService \<Rightarrow> int \<Rightarrow> IHookResult list \<times> action list \<times> int" where
  "executeHooks = executeHooksWith executeHook"

text \<open>The hooks called and the events published, read off the observed actions.\<close>

fun invoked :: "action list \<Rightarrow> hook list" where
  "invoked [] = []"
| "invoked (Invoked h # as) = h # invoked as"
| "invoked (Published e # as) = invoked as"

fun published :: "action list \<Rightarrow> IHookExecutionEvent list" where
  "published [] = []"
| "published (Invoked h # as) = published as"
| "published (Published e # as) = e # published as"

section \<open>Loading the configuration (browser/hooksService.ts)\<close>

text \<open>A JavaScript value read as a condition.\<close>

fun isTruthy :: "json \<Rightarrow> bool" where
  "isTruthy JNull = False"
| "isTruthy (JBool b) = b"
| "isTruthy (JNumber n) = (n \<noteq> 0)"
| "isTruthy (JString s) = (s \<noteq> [])"
| "isTruthy (JArray xs) = True"
| "isTruthy (JObject r ps) = True"

text \<open>
  Modelled from the spec: \<^verbatim>\<open>isObject\<close> of \<^verbatim>\<open>base/common/types\<close>, which is not among the
  sources. The spec's file format puts an object under \<^verbatim>\<open>hooks\<close> and sets "an array" and
  "an object" apart: an object is a value with properties that is neither \<^verbatim>\<open>null\<close> nor an array.
\<close>

fun isObject :: "json \<Rightarrow> bool" where
  "isObject (JObject r ps) = True"
| "isObject _ = False"

datatype error = TypeError

text \<open>\<^verbatim>\<open>config.hooks\<close>: reading a property of \<^verbatim>\<open>null\<close> throws; a primitive value or an array has
  no property of that name; \<open>None\<close> is \<^verbatim>\<open>undefined\<close>.\<close>

fun hooksProperty :: "json \<Rightarrow> error + json option" where
  "hooksProperty JNull = Inl TypeError"
| "hooksProperty (JObject r ps) = Inr (map_of ps ''hooks'')"
| "hooksProperty _ = Inr None"

text \<open>\<^verbatim>\<open>Object.entries\<close> of an object, in the order of its properties.\<close>

fun entries :: "json \<Rightarrow> (string \<times> json) list" where
  "entries (JObject r ps) = ps"
| "entries _ = []"

text \<open>\<^verbatim>\<open>Object.values(HookType).includes(hookType)\<close>, giving the member whose value the name is.\<close>

definition hookTypeOfName :: "string \<Rightarrow> HookType option" where
  "hookTypeOfName hookTypeName = find (\<lambda>ty. hookTypeValue ty = hookTypeName) hookTypeValues"

text \<open>
  \<^verbatim>\<open>hookConfig as IHookConfiguration\<close>. The cast checks nothing, and the parsed object is
  registered as it is. The service reads \<^verbatim>\<open>abortOnFailure\<close> of a registered configuration as a
  condition only, so the record holds whether the value under that name is truthy:
  \<^verbatim>\<open>abortOnFailure: 1\<close> aborts like \<^verbatim>\<open>true\<close>. The other properties are held when they have the
  type the interface declares. Of these the service reads \<^verbatim>\<open>script\<close> and \<^verbatim>\<open>command\<close>, for the
  text the simulation prints, and \<^verbatim>\<open>timeout\<close>, for a value it does not use; a script or
  command that is not a string is read as absent, so the text printed for it is outside
  the model.
\<close>

fun asString :: "json \<Rightarrow> string option" where
  "asString (JString s) = Some s"
| "asString _ = None"

fun asNumber :: "json \<Rightarrow> int option" where
  "asNumber (JNumber n) = Some n"
| "asNumber _ = None"

fun asBoolean :: "json \<Rightarrow> bool option" where
  "asBoolean (JBool b) = Some b"
| "asBoolean _ = None"

fun asStrings :: "json list \<Rightarrow> string list option" where
  "asStrings [] = Some []"
| "asStrings (JString s # xs) = map_option ((#) s) (asStrings xs)"
| "asStrings (_ # xs) = None"

fun asStringArray :: "json \<Rightarrow> string list option" where
  "asStringArray (JArray xs) = asStrings xs"
| "asStringArray _ = None"

fun asStringProperties :: "(string \<times> json) list \<Rightarrow> (string \<times> string) list option" where
  "asStringProperties [] = Some []"
| "asStringProperties ((k, JString s) # ps) = map_option ((#) (k, s)) (asStringProperties ps)"
| "asStringProperties (_ # ps) = None"

fun asStringMap :: "json \<Rightarrow> (string \<times> string) list option" where
  "asStringMap (JObject r ps) = asStringProperties ps"
| "asStringMap _ = None"

definition asHookConfiguration :: "(string \<times> json) list \<Rightarrow> IHookConfiguration" where
  "asHookConfiguration ps =
     \<lparr>script = Option.bind (map_of ps ''script'') asString,
      command = Option.bind (map_of ps ''command'') asString,
      args = Option.bind (map_of ps ''args'') asStringArray,
      timeout = Option.bind (map_of ps ''timeout'') asNumber,
      abortOnFailure = map_option isTruthy (map_of ps ''abortOnFailure''),
      async = Option.bind (map_of ps ''async'') asBoolean,
      cwd = Option.bind (map_of ps ''cwd'') asString,
      env = Option.bind (map_of ps ''env'') asStringMap\<rparr>"

text \<open>The inner loop of \<^verbatim>\<open>loadHooksFromConfig\<close>: every element that is an object is registered;
  the handle that \<^verbatim>\<open>registerHook\<close> returns is dropped.\<close>

fun registerConfigs :: "HookType \<Rightarrow> json list \<Rightarrow> HooksService \<Rightarrow> HooksService" where
  "registerConfigs ty [] s = s"
| "registerConfigs ty (hookConfig # configs) s =
     registerConfigs ty configs
       (case hookConfig of
          JObject r ps \<Rightarrow> snd (registerHook ty (r, asHookConfiguration ps) s)
        | _ \<Rightarrow> s)"

text \<open>\<^verbatim>\<open>Array.isArray(hookConfigs) ? hookConfigs : [hookConfigs]\<close>\<close>

fun configsOf :: "json \<Rightarrow> json list" where
  "configsOf (JArray xs) = xs"
| "configsOf hookConfigs = [hookConfigs]"

text \<open>The outer loop of \<^verbatim>\<open>loadHooksFromConfig\<close>: an unknown name is skipped.\<close>

fun loadEntries :: "(string \<times> json) list \<Rightarrow> HooksService \<Rightarrow> HooksService" where
  "loadEntries [] s = s"
| "loadEntries ((hookTypeName, hookConfigs) # rest) s =
     (case hookTypeOfName hookTypeName of
        None \<Rightarrow> loadEntries rest s
      | Some ty \<Rightarrow> loadEntries rest (registerConfigs ty (configsOf hookConfigs) s))"

definition loadHooksFromConfig :: "json \<Rightarrow> HooksService \<Rightarrow> error + HooksService" where
  "loadHooksFromConfig config s =
     (case hooksProperty config of
        Inl e \<Rightarrow> Inl e
      | Inr None \<Rightarrow> Inr s
      | Inr (Some hooks) \<Rightarrow>
          if \<not> isTruthy hooks \<or> \<not> isObject hooks then Inr s
          else Inr (loadEntries (entries hooks) (s\<lparr>registeredHooks := (\<lambda>_. None)\<rparr>)))"

text \<open>
  What \<^verbatim>\<open>loadWorkspaceHooks\<close> finds at \<^verbatim>\<open>.vscode/hooks.json\<close>: no workspace folder, a file that
  cannot be read or parsed (\<^verbatim>\<open>readFile\<close> or \<^verbatim>\<open>JSON.parse\<close> throws), or the parsed value.
\<close>

datatype hooksFile = NoWorkspaceFolder | Unreadable | Parsed json

text \<open>
  \<^verbatim>\<open>loadWorkspaceHooks\<close>, with what \<^verbatim>\<open>getValue('hooks')\<close> returns (\<open>None\<close> is \<^verbatim>\<open>undefined\<close>) and
  what is found at the file. An exception in the first part would leave the function; the
  second part is inside \<^verbatim>\<open>try\<close>, and its \<^verbatim>\<open>catch\<close> only logs.
\<close>

definition loadWorkspaceHooks :: "json option \<Rightarrow> hooksFile \<Rightarrow> HooksService \<Rightarrow> error + HooksService" where
  "loadWorkspaceHooks config file s =
     (case (case config of
              Some c \<Rightarrow> if isTruthy c \<and> isObject c then loadHooksFromConfig c s else Inr s
            | None \<Rightarrow> Inr s) of
        Inl e \<Rightarrow> Inl e
      | Inr s1 \<Rightarrow>
          (case file of
             NoWorkspaceFolder \<Rightarrow> Inr s1
           | Unreadable \<Rightarrow> Inr s1
           | Parsed hooksConfig \<Rightarrow>
               (case loadHooksFromConfig hooksConfig s1 of
                  Inl e \<Rightarrow> Inr s1
                | Inr s2 \<Rightarrow> Inr s2)))"

section \<open>Notions used to state the properties\<close>

text \<open>
  The registry is well formed when every array the map holds has been allocated and no two
  event types share an array. \<^verbatim>\<open>registerHook\<close> is the only place that allocates an array, one
  for each key it adds, so every state the service reaches is well formed.
\<close>

definition wellFormed :: "HooksService \<Rightarrow> bool" where
  "wellFormed s =
     list_all (\<lambda>ty. case registeredHooks s ty of
                       None \<Rightarrow> True
                     | Some a \<Rightarrow> a < nextArray s \<and>
                         list_all (\<lambda>ty'. ty' = ty \<or> registeredHooks s ty' \<noteq> Some a) hookTypeValues)
       hookTypeValues"

text \<open>The list without the first entry that is the object \<open>c\<close> (the same reference).\<close>

fun removeInstance :: "hook \<Rightarrow> hook list \<Rightarrow> hook list" where
  "removeInstance c [] = []"
| "removeInstance c (x # xs) = (if fst x = fst c then xs else x # removeInstance c xs)"

text \<open>The result that the loop records for an outcome of \<^verbatim>\<open>executeHook\<close>.\<close>

fun recorded :: "outcome \<Rightarrow> IHookResult" where
  "recorded (Returned r) = r"
| "recorded (Threw e) = errorResult e"

text \<open>The outcomes of the hooks of a list when they are called one after the other, each in
  the world the one before has left.\<close>

fun outcomesInOrder :: "'w runner \<Rightarrow> IHookContext \<Rightarrow> hook list \<Rightarrow> 'w \<Rightarrow> outcome list" where
  "outcomesInOrder run ctx [] w = []"
| "outcomesInOrder run ctx (hook # rest) w =
     (case run hook ctx w of (out, w') \<Rightarrow> out # outcomesInOrder run ctx rest w')"

text \<open>The event of one hook: its type, configuration, result and context.\<close>

definition hookEvent :: "HookType \<Rightarrow> IHookContext \<Rightarrow> hook \<Rightarrow> IHookResult \<Rightarrow> IHookExecutionEvent" where
  "hookEvent ty ctx h r =
     \<lparr>eventHookType = ty, configuration = h, result = r, eventContext = ctx\<rparr>"

text \<open>The actions of a run in which each hook is called and then, before anything else, its
  one event is published.\<close>

definition callThenEvent ::
  "HookType \<Rightarrow> IHookContext \<Rightarrow> (hook \<times> IHookResult) list \<Rightarrow> action list" where
  "callThenEvent ty ctx prs =
     concat (map (\<lambda>(h, r). [Invoked h, Published (hookEvent ty ctx h r)]) prs)"

text \<open>
  What the hooks file contributes to an event type, in the words of the spec: the file is
  an object with an object under \<^verbatim>\<open>hooks\<close>; under the name of the event type there is a list of
  configurations, or one configuration, which stands for the list of it alone; what is not
  an object is dropped.
\<close>

fun hooksAmong :: "json list \<Rightarrow> hook list" where
  "hooksAmong [] = []"
| "hooksAmong (JObject r ps # xs) = (r, asHookConfiguration ps) # hooksAmong xs"
| "hooksAmong (_ # xs) = hooksAmong xs"

fun contributedEntries :: "HookType \<Rightarrow> (string \<times> json) list \<Rightarrow> hook list" where
  "contributedEntries ty [] = []"
| "contributedEntries ty ((name, v) # es) =
     (if name = hookTypeValue ty then hooksAmong (configsOf v) else []) @ contributedEntries ty es"

definition providesHooks :: "json \<Rightarrow> bool" where
  "providesHooks config =
     (case config of
        JObject r ps \<Rightarrow> (case map_of ps ''hooks'' of Some (JObject r' es) \<Rightarrow> True | _ \<Rightarrow> False)
      | _ \<Rightarrow> False)"

definition contributed :: "HookType \<Rightarrow> json \<Rightarrow> hook list" where
  "contributed ty config =
     (case config of
        JObject r ps \<Rightarrow>
          (case map_of ps ''hooks'' of Some (JObject r' es) \<Rightarrow> contributedEntries ty es | _ \<Rightarrow> [])
      | _ \<Rightarrow> [])"

text \<open>
  What \<^verbatim>\<open>loadWorkspaceHooks\<close> takes from the value of \<^verbatim>\<open>getValue('hooks')\<close>. This is the reading
  of the code and not the format of the settings in the spec and the README (a list per
  event type under \<^verbatim>\<open>hooks.preCommit\<close> and the like): the code gives the value to
  \<^verbatim>\<open>loadHooksFromConfig\<close> as it gives the parsed file, so it looks for an object under
  \<^verbatim>\<open>hooks\<close> inside the value. Settings written as the README writes them have none. The
  properties below use this reading for what the code does with a settings value, never
  for what the settings ought to contribute.
\<close>

definition settingsProvide :: "json option \<Rightarrow> bool" where
  "settingsProvide config = (case config of Some c \<Rightarrow> providesHooks c | None \<Rightarrow> False)"

definition fromSettings :: "HookType \<Rightarrow> json option \<Rightarrow> hook list" where
  "fromSettings ty config = (case config of Some c \<Rightarrow> contributed ty c | None \<Rightarrow> [])"

text \<open>Whether the hooks file provides hooks, and what it contributes.\<close>

definition fileProvides :: "hooksFile \<Rightarrow> bool" where
  "fileProvides file = (case file of Parsed c \<Rightarrow> providesHooks c | _ \<Rightarrow> False)"

definition fromFile :: "HookType \<Rightarrow> hooksFile \<Rightarrow> hook list" where
  "fromFile ty file = (case file of Parsed c \<Rightarrow> contributed ty c | _ \<Rightarrow> [])"

text \<open>The operations on the registry that a client of the service can perform, and a run of
  them. A reload that throws leaves the state as it is.\<close>

datatype operation =
    Register HookType hook
  | Dispose IDisposable
  | Clear HookType
  | Reload "json option" hooksFile

fun perform :: "operation \<Rightarrow> HooksService \<Rightarrow> HooksService" where
  "perform (Register ty c) s = snd (registerHook ty c s)"
| "perform (Dispose d) s = snd (dispose d s)"
| "perform (Clear ty) s = clearHooks ty s"
| "perform (Reload config file) s =
     (case loadWorkspaceHooks config file s of Inr s' \<Rightarrow> s' | Inl e \<Rightarrow> s)"

text \<open>The operations after which no array that was in the map of an event type is there any
  more: \<^verbatim>\<open>clearHooks\<close> of that type, and a reload in which a source provides hooks.\<close>

fun detaches :: "HookType \<Rightarrow> operation \<Rightarrow> bool" where
  "detaches ty (Clear ty') = (ty' = ty)"
| "detaches ty (Reload config file) = (settingsProvide config \<or> fileProvides file)"
| "detaches ty _ = False"

text \<open>
  A value without the addresses of its objects. Two values with the same image have the same
  content: a file that is read and parsed again gives new objects with the content of the
  old ones.
\<close>

fun erase :: "json \<Rightarrow> json" where
  "erase (JArray xs) = JArray (map erase xs)"
| "erase (JObject r ps) = JObject 0 (map (\<lambda>(k, v). (k, erase v)) ps)"
| "erase v = v"

definition eraseSettings :: "json option \<Rightarrow> json option" where
  "eraseSettings config = map_option erase config"

fun eraseFile :: "hooksFile \<Rightarrow> hooksFile" where
  "eraseFile (Parsed c) = Parsed (erase c)"
| "eraseFile hf = hf"

text \<open>The parts of what \<open>executeHooksWith\<close> gives: the returned results, the observed actions,
  the world afterwards.\<close>

abbreviation resultsOf :: "IHookResult list \<times> action list \<times> 'w \<Rightarrow> IHookResult list" where
  "resultsOf x \<equiv> fst x"

abbreviation actionsOf :: "IHookResult list \<times> action list \<times> 'w \<Rightarrow> action list" where
  "actionsOf x \<equiv> fst (snd x)"

abbreviation worldOf :: "IHookResult list \<times> action list \<times> 'w \<Rightarrow> 'w" where
  "worldOf x \<equiv> snd (snd x)"

section \<open>Example inputs\<close>

definition commitContext :: IHookContext where
  "commitContext = \<lparr>hookType = PreCommit, workspaceUri = Some ''/test/workspace'', data = None,
     fileUri = None\<rparr>"

definition scriptHook :: "string \<Rightarrow> bool option \<Rightarrow> IHookConfiguration" where
  "scriptHook path abort =
     \<lparr>script = Some path, command = None, args = None, timeout = None, abortOnFailure = abort,
      async = None, cwd = None, env = None\<rparr>"

definition formatHook :: hook where
  "formatHook = (1, scriptHook ''./hooks/format.sh'' None)"

definition lintHook :: hook where
  "lintHook = (2, scriptHook ''./hooks/lint-check.sh'' (Some True))"

definition scanHook :: hook where
  "scanHook = (3, scriptHook ''./hooks/security-scan.js'' (Some False))"

text \<open>A service with the three hooks registered for \<^verbatim>\<open>pre-commit\<close>, in this order.\<close>

definition commitService :: HooksService where
  "commitService =
     snd (registerHook PreCommit scanHook
       (snd (registerHook PreCommit lintHook
         (snd (registerHook PreCommit formatHook newHooksService)))))"

text \<open>A process runner in which the format script cannot be started, the lint script exits
  with code 1 and any other script succeeds; the world counts the calls.\<close>

definition commitRunner :: "nat runner" where
  "commitRunner hook ctx calls =
     (if script (snd hook) = Some ''./hooks/format.sh''
      then (Threw (Error ''spawn ./hooks/format.sh ENOENT''), Suc calls)
      else if script (snd hook) = Some ''./hooks/lint-check.sh''
      then (Returned \<lparr>exitCode = 1, stdout = '''', stderr = ''2 problems'', success = False,
                      executionTime = 40\<rparr>, Suc calls)
      else (Returned \<lparr>exitCode = 0, stdout = ''ok'', stderr = '''', success = True,
                      executionTime = 5\<rparr>, Suc calls))"

text \<open>A process runner that throws 250 ms after the call; the world is the clock.\<close>

definition lateThrowRunner :: "int runner" where
  "lateThrowRunner hook ctx now = (Threw (Error ''spawn ENOENT''), now + 250)"

text \<open>The three hooks run for \<^verbatim>\<open>pre-commit\<close> with that runner, from a world without calls.\<close>

definition commitRun :: "IHookResult list \<times> action list \<times> nat" where
  "commitRun = executeHooksWith commitRunner PreCommit commitContext commitService 0"

text \<open>A service with the lint hook alone, and its run with the runner that throws late, from
  the clock at 1000 ms.\<close>

definition lintService :: HooksService where
  "lintService = snd (registerHook PreCommit lintHook newHooksService)"

definition lateThrowRun :: "IHookResult list \<times> action list \<times> int" where
  "lateThrowRun = executeHooksWith lateThrowRunner PreCommit commitContext lintService 1000"

text \<open>An allocated array that the map holds for no event type outside \<open>tys\<close>.\<close>

definition heldOnlyBy :: "addr \<Rightarrow> HookType list \<Rightarrow> HooksService \<Rightarrow> bool" where
  "heldOnlyBy a tys s =
     (a < nextArray s \<and>
      list_all (\<lambda>ty. registeredHooks s ty \<noteq> Some a \<or> ty \<in> set tys) hookTypeValues)"








text \<open>A configuration with neither \<^verbatim>\<open>script\<close> nor \<^verbatim>\<open>command\<close>, and one with both.\<close>

definition bareHook :: hook where
  "bareHook =
     (7, \<lparr>script = None, command = None, args = None, timeout = Some 1000, abortOnFailure = None,
          async = None, cwd = None, env = None\<rparr>)"

definition bothHook :: hook where
  "bothHook =
     (8, \<lparr>script = Some ''./hooks/lint-check.sh'', command = Some ''echo'', args = Some [''lint''],
          timeout = None, abortOnFailure = None, async = None, cwd = None, env = None\<rparr>)"

text \<open>Sources of the configuration: a settings value with a \<^verbatim>\<open>hooks\<close> object, and a hooks
  file.\<close>

definition settingsExample :: json where
  "settingsExample =
     JObject 10 [(''hooks'', JObject 11
       [(''pre-commit'', JArray [JObject 12 [(''script'', JString ''./global.sh'')]])])]"

definition fileExample :: hooksFile where
  "fileExample =
     Parsed (JObject 20 [(''hooks'', JObject 21
       [(''pre-commit'', JArray [JObject 22
          [(''script'', JString ''./a.sh''), (''timeout'', JNumber 1000),
           (''abortOnFailure'', JBool True)]]),
        (''pre-xyz'', JArray [JObject 23 [(''script'', JString ''./x.sh'')]])])])"

definition globalHook :: hook where
  "globalHook = (12, scriptHook ''./global.sh'' None)"

definition fileHook :: hook where
  "fileHook =
     (22, \<lparr>script = Some ''./a.sh'', command = None, args = None, timeout = Some 1000,
           abortOnFailure = Some True, async = None, cwd = None, env = None\<rparr>)"

text \<open>A handle that goes stale: the lint hook is registered, then another hook, then
  \<^verbatim>\<open>pre-commit\<close> is cleared and a hook is registered again; or the hooks file is loaded.\<close>

definition staleHandle :: IDisposable where
  "staleHandle = fst (registerHook PreCommit lintHook newHooksService)"

definition afterClear :: HooksService where
  "afterClear =
     fold perform [Register PreCommit formatHook]
       (perform (Clear PreCommit) (fold perform [Register PreCommit scanHook] lintService))"

definition afterReload :: HooksService where
  "afterReload =
     fold perform [] (perform (Reload None fileExample) (fold perform [] lintService))"

text \<open>The hooks file of above, read and parsed once more: new objects, the same content.\<close>

definition fileExampleAgain :: hooksFile where
  "fileExampleAgain =
     Parsed (JObject 30 [(''hooks'', JObject 31
       [(''pre-commit'', JArray [JObject 32
          [(''script'', JString ''./a.sh''), (''timeout'', JNumber 1000),
           (''abortOnFailure'', JBool True)]]),
        (''pre-xyz'', JArray [JObject 33 [(''script'', JString ''./x.sh'')]])])])"


text \<open>A hooks file that parses and has no \<^verbatim>\<open>hooks\<close> member.\<close>

definition hooklessFile :: hooksFile where
  "hooklessFile = Parsed (JObject 40 [(''$schema'', JString ''vscode://schemas/hooks'')])"



section \<open>The registry: auxiliary facts\<close>

lemma hookTypeValues_UNIV: "set hookTypeValues = UNIV"
proof -
  have "ty \<in> set hookTypeValues" for ty
    by (cases ty) (simp_all add: hookTypeValues_def)
  then show ?thesis by blast
qed

lemma wellFormed_iff:
  "wellFormed s \<longleftrightarrow>
     (\<forall>ty a. registeredHooks s ty = Some a \<longrightarrow> a < nextArray s) \<and>
     (\<forall>t1 t2 a. registeredHooks s t1 = Some a \<longrightarrow> registeredHooks s t2 = Some a \<longrightarrow> t1 = t2)"
  unfolding wellFormed_def list_all_iff hookTypeValues_UNIV
  by (simp split: option.splits) blast

lemma wellFormed_new: "wellFormed newHooksService"
  by (simp add: wellFormed_iff newHooksService_def)

lemma registerHook_state:
  "snd (registerHook ty c s) =
     (case registeredHooks s ty of
        Some a \<Rightarrow> s\<lparr>arrays := (arrays s)(a := arrays s a @ [c])\<rparr>
      | None \<Rightarrow> s\<lparr>registeredHooks := (registeredHooks s)(ty \<mapsto> nextArray s),
                 arrays := (arrays s)(nextArray s := [c]),
                 nextArray := Suc (nextArray s)\<rparr>)"
  by (simp add: registerHook_def Let_def split: option.splits)

lemma registerHook_handle:
  "fst (registerHook ty c s) =
     \<lparr>capturedHooks = (case registeredHooks s ty of Some a \<Rightarrow> a | None \<Rightarrow> nextArray s),
      capturedConfiguration = c, capturedHookType = ty, didCall = False\<rparr>"
  by (simp add: registerHook_def Let_def split: option.splits)

lemma wellFormed_registerHook: "wellFormed s \<Longrightarrow> wellFormed (snd (registerHook ty c s))"
proof (cases "registeredHooks s ty")
  case None
  assume wf: "wellFormed s"
  have lt: "registeredHooks s t = Some a \<Longrightarrow> a < nextArray s" for t a
    using wf by (simp add: wellFormed_iff)
  have inj: "registeredHooks s t1 = Some a \<Longrightarrow> registeredHooks s t2 = Some a \<Longrightarrow> t1 = t2" for t1 t2 a
    using wf unfolding wellFormed_iff by blast
  show ?thesis
    unfolding wellFormed_iff registerHook_state using None
    by (auto dest: lt inj simp: less_Suc_eq)
next
  case (Some a)
  assume "wellFormed s"
  then show ?thesis
    unfolding wellFormed_iff registerHook_state using Some by simp
qed

lemma getHooks_registerHook_same:
  "getHooks ty (snd (registerHook ty c s)) = getHooks ty s @ [c]"
  unfolding registerHook_state getHooks_def
  by (auto split: option.splits if_splits)

lemma getHooks_registerHook_other:
  assumes "wellFormed s" "ty' \<noteq> ty"
  shows "getHooks ty' (snd (registerHook ty c s)) = getHooks ty' s"
proof -
  have lt: "registeredHooks s t = Some a \<Longrightarrow> a < nextArray s" for t a
    using assms(1) by (simp add: wellFormed_iff)
  have inj: "registeredHooks s t1 = Some a \<Longrightarrow> registeredHooks s t2 = Some a \<Longrightarrow> t1 = t2" for t1 t2 a
    using assms(1) unfolding wellFormed_iff by blast
  show ?thesis
    unfolding registerHook_state getHooks_def using assms(2)
    by (auto split: option.splits dest: lt inj)
qed

lemma hasHooks_getHooks: "hasHooks ty s \<longleftrightarrow> getHooks ty s \<noteq> []"
  by (simp add: hasHooks_def getHooks_def split: option.splits)

lemma indexOfFrom_bounds:
  "0 \<le> i \<Longrightarrow> indexOfFrom i xs c = -1 \<or> i \<le> indexOfFrom i xs c"
proof (induction xs arbitrary: i)
  case Nil
  then show ?case by simp
next
  case (Cons x xs)
  from Cons.IH[of "i + 1"] Cons.prems show ?case by auto
qed

lemma indexOfFrom_none:
  "0 \<le> i \<Longrightarrow> indexOfFrom i xs c = -1 \<Longrightarrow> removeInstance c xs = xs"
proof (induction xs arbitrary: i)
  case Nil
  then show ?case by simp
next
  case (Cons x xs)
  from Cons.IH[of "i + 1"] Cons.prems show ?case by (auto split: if_splits)
qed

lemma splice1_indexOfFrom:
  "0 \<le> i \<Longrightarrow> indexOfFrom i xs c \<noteq> -1 \<Longrightarrow>
     splice1 xs (nat (indexOfFrom i xs c - i)) = removeInstance c xs"
proof (induction xs arbitrary: i)
  case Nil
  then show ?case by simp
next
  case (Cons x xs)
  show ?case
  proof (cases "fst x = fst c")
    case True
    then show ?thesis by (simp add: splice1_def)
  next
    case False
    with Cons.prems have ne: "indexOfFrom (i + 1) xs c \<noteq> -1" by simp
    with indexOfFrom_bounds[of "i + 1" xs c] Cons.prems have le: "i + 1 \<le> indexOfFrom (i + 1) xs c" by simp
    then have "nat (indexOfFrom (i + 1) xs c - i) = Suc (nat (indexOfFrom (i + 1) xs c - (i + 1)))" by simp
    with Cons.IH[of "i + 1"] ne Cons.prems False show ?thesis
      by (simp add: splice1_def)
  qed
qed

lemma unregister_state:
  "unregister d s = s\<lparr>arrays := (arrays s)(capturedHooks d :=
       removeInstance (capturedConfiguration d) (arrays s (capturedHooks d)))\<rparr>"
proof (cases "indexOf (arrays s (capturedHooks d)) (capturedConfiguration d) = -1")
  case True
  then have "removeInstance (capturedConfiguration d) (arrays s (capturedHooks d)) = arrays s (capturedHooks d)"
    using indexOfFrom_none[of 0] by (simp add: indexOf_def)
  with True show ?thesis by (simp add: unregister_def Let_def)
next
  case False
  then have "splice1 (arrays s (capturedHooks d)) (nat (indexOf (arrays s (capturedHooks d)) (capturedConfiguration d)))
       = removeInstance (capturedConfiguration d) (arrays s (capturedHooks d))"
    using splice1_indexOfFrom[of 0] by (simp add: indexOf_def)
  with False show ?thesis by (simp add: unregister_def Let_def)
qed

section \<open>The execution loop: auxiliary facts\<close>

lemma loop_acc:
  "executeHooksLoop run ty ctx hs rs tr w =
     (case executeHooksLoop run ty ctx hs [] [] w of (rs', tr', w') \<Rightarrow> (rs @ rs', tr @ tr', w'))"
proof (induction hs arbitrary: rs tr w)
  case Nil
  then show ?case by simp
next
  case (Cons h hs)
  obtain out w1 where run: "run h ctx w = (out, w1)" by (cases "run h ctx w")
  show ?case
  proof (cases out)
    case (Returned r)
    let ?e = "[Invoked h, Published \<lparr>eventHookType = ty, configuration = h, result = r, eventContext = ctx\<rparr>]"
    show ?thesis
      using run Returned Cons.IH[of "rs @ [r]" "tr @ ?e" w1] Cons.IH[of "[r]" ?e w1]
      by (simp add: Let_def split: prod.splits)
  next
    case (Threw e)
    let ?e = "[Invoked h, Published \<lparr>eventHookType = ty, configuration = h, result = errorResult e, eventContext = ctx\<rparr>]"
    show ?thesis
      using run Threw Cons.IH[of "rs @ [errorResult e]" "tr @ ?e" w1] Cons.IH[of "[errorResult e]" ?e w1]
      by (simp add: Let_def split: prod.splits)
  qed
qed

lemma loop_Cons:
  assumes "run h ctx w = (out, w1)"
  shows "executeHooksLoop run ty ctx (h # hs) [] [] w =
     (if \<not> success (recorded out) \<and> truthy (abortOnFailure (snd h))
      then ([recorded out], [Invoked h, Published (hookEvent ty ctx h (recorded out))], w1)
      else (case executeHooksLoop run ty ctx hs [] [] w1 of (rs', tr', w') \<Rightarrow>
              (recorded out # rs', Invoked h # Published (hookEvent ty ctx h (recorded out)) # tr', w')))"
proof (cases out)
  case (Returned r)
  show ?thesis using assms Returned
    by (simp add: hookEvent_def Let_def loop_acc[of run ty ctx hs "[r]"] split: prod.splits)
next
  case (Threw e)
  show ?thesis using assms Threw
    by (simp add: hookEvent_def Let_def errorResult_def loop_acc[of run ty ctx hs "[x]" for x] split: prod.splits)
qed

declare executeHooksLoop.simps(2) [simp del]

lemma loop_trace:
  "executeHooksLoop run ty ctx hs [] [] w = (rs, tr, w') \<Longrightarrow>
     tr = callThenEvent ty ctx (zip hs rs) \<and> length rs \<le> length hs"
proof (induction hs arbitrary: rs tr w w')
  case Nil
  then show ?case by (simp add: callThenEvent_def)
next
  case (Cons h hs)
  obtain out w1 where run: "run h ctx w = (out, w1)" by (cases "run h ctx w")
  show ?case
    using Cons.prems Cons.IH
    by (auto simp: loop_Cons[of run h ctx w out w1, OF run] callThenEvent_def split: if_splits prod.splits)
qed

lemma loop_abort:
  "executeHooksLoop run ty ctx hs [] [] w = (rs, tr, w') \<Longrightarrow> i < length rs \<Longrightarrow>
     \<not> success (rs ! i) \<Longrightarrow> truthy (abortOnFailure (snd (hs ! i))) \<Longrightarrow> length rs = Suc i"
proof (induction hs arbitrary: rs tr w w' i)
  case Nil
  then show ?case by simp
next
  case (Cons h hs)
  obtain out w1 where run: "run h ctx w = (out, w1)" by (cases "run h ctx w")
  show ?case
  proof (cases i)
    case 0
    then show ?thesis using Cons.prems
      by (auto simp: loop_Cons[of run h ctx w out w1, OF run] split: if_splits prod.splits)
  next
    case (Suc j)
    then show ?thesis using Cons.prems Cons.IH[of w1 _ _ _ j]
      by (auto simp: loop_Cons[of run h ctx w out w1, OF run] split: if_splits prod.splits)
  qed
qed

lemma loop_continue:
  "executeHooksLoop run ty ctx hs [] [] w = (rs, tr, w') \<Longrightarrow> i < length rs \<Longrightarrow>
     \<not> (\<not> success (rs ! i) \<and> truthy (abortOnFailure (snd (hs ! i)))) \<Longrightarrow> Suc i < length hs \<Longrightarrow> Suc i < length rs"
proof (induction hs arbitrary: rs tr w w' i)
  case Nil
  then show ?case by simp
next
  case (Cons h hs)
  obtain out w1 where run: "run h ctx w = (out, w1)" by (cases "run h ctx w")
  show ?case
  proof (cases i)
    case 0
    show ?thesis
    proof (cases hs)
      case Nil
      then show ?thesis using Cons.prems by simp
    next
      case (Cons h2 hs2)
      obtain out2 w2 where run2: "run h2 ctx w1 = (out2, w2)" by (cases "run h2 ctx w1")
      show ?thesis using Cons.prems 0 Cons
        by (auto simp: loop_Cons[of run h ctx w out w1, OF run] loop_Cons[of run h2 ctx w1 out2 w2, OF run2] split: if_splits prod.splits)
    qed
  next
    case (Suc j)
    then show ?thesis using Cons.prems Cons.IH[of w1 _ _ _ j]
      by (auto simp: loop_Cons[of run h ctx w out w1, OF run] split: if_splits prod.splits)
  qed
qed

lemma invoked_callThenEvent: "invoked (callThenEvent ty ctx prs) = map fst prs"
  by (induction prs) (auto simp: callThenEvent_def)

lemma published_callThenEvent:
  "published (callThenEvent ty ctx prs) = map (\<lambda>(h, r). hookEvent ty ctx h r) prs"
  by (induction prs) (auto simp: callThenEvent_def)

lemma loop_results:
  "executeHooksLoop run ty ctx hs [] [] w = (rs, tr, w') \<Longrightarrow>
     rs = map recorded (take (length rs) (outcomesInOrder run ctx hs w))"
proof (induction hs arbitrary: rs tr w w')
  case Nil
  then show ?case by simp
next
  case (Cons h hs)
  obtain out w1 where run: "run h ctx w = (out, w1)" by (cases "run h ctx w")
  show ?case
    using Cons.prems Cons.IH[of w1]
    by (auto simp: loop_Cons[of run h ctx w out w1, OF run] run split: if_splits prod.splits)
qed

lemma loop_outcomes_length:
  "length (outcomesInOrder run ctx hs w) = length hs"
  by (induction hs arbitrary: w) (auto split: prod.splits)

lemma loop_world:
  "executeHooksLoop run ty ctx hs [] [] w = (rs, tr, w') \<Longrightarrow>
     w' = fold (\<lambda>h v. snd (run h ctx v)) (take (length rs) hs) w"
proof (induction hs arbitrary: rs tr w w')
  case Nil
  then show ?case by simp
next
  case (Cons h hs)
  obtain out w1 where run: "run h ctx w = (out, w1)" by (cases "run h ctx w")
  show ?case
    using Cons.prems Cons.IH[of w1]
    by (auto simp: loop_Cons[of run h ctx w out w1, OF run] run split: if_splits prod.splits)
qed

lemma loop_first:
  "(fst (executeHooksLoop run ty ctx hs [] [] w) = []) = (hs = [])"
proof (cases hs)
  case Nil
  then show ?thesis by simp
next
  case (Cons h rest)
  obtain out w1 where run: "run h ctx w = (out, w1)" by (cases "run h ctx w")
  show ?thesis
    using Cons by (simp add: loop_Cons[of run h ctx w out w1, OF run] split: prod.splits)
qed

lemma executed_result:
  assumes "executeHooksWith run ty ctx s w = (rs, tr, w')" and "i < length rs"
  shows "rs ! i = recorded (outcomesInOrder run ctx (getHooks ty s) w ! i)"
proof -
  let ?hs = "getHooks ty s"
  from assms(1) have e: "executeHooksLoop run ty ctx ?hs [] [] w = (rs, tr, w')"
    by (simp add: executeHooksWith_def)
  from loop_trace[OF e] have le: "length rs \<le> length ?hs" by simp
  have "rs ! i = map recorded (take (length rs) (outcomesInOrder run ctx ?hs w)) ! i"
    using loop_results[OF e] by simp
  also have "\<dots> = recorded (outcomesInOrder run ctx ?hs w ! i)"
    using assms(2) le by (simp add: loop_outcomes_length)
  finally show ?thesis .
qed

lemma getHooks_new: "getHooks ty newHooksService = []"
  by (simp add: getHooks_def newHooksService_def)

lemma commitService_hooks: "getHooks PreCommit commitService = [formatHook, lintHook, scanHook]"
  by (simp add: commitService_def getHooks_registerHook_same getHooks_new)

lemma lintService_hooks: "getHooks PreCommit lintService = [lintHook]"
  by (simp add: lintService_def getHooks_registerHook_same getHooks_new)

lemma commitRun_value:
  "commitRun =
     ([errorResult (Error ''spawn ./hooks/format.sh ENOENT''),
       \<lparr>exitCode = 1, stdout = '''', stderr = ''2 problems'', success = False, executionTime = 40\<rparr>],
      [Invoked formatHook,
       Published (hookEvent PreCommit commitContext formatHook
         (errorResult (Error ''spawn ./hooks/format.sh ENOENT''))),
       Invoked lintHook,
       Published (hookEvent PreCommit commitContext lintHook
         \<lparr>exitCode = 1, stdout = '''', stderr = ''2 problems'', success = False, executionTime = 40\<rparr>)],
      2)"
  by (simp add: commitRun_def executeHooksWith_def commitService_hooks executeHooksLoop.simps
      commitRunner_def formatHook_def lintHook_def scanHook_def scriptHook_def hookEvent_def)

lemma commitRun_split:
  "executeHooksWith commitRunner PreCommit commitContext commitService 0 =
     (resultsOf commitRun, actionsOf commitRun, worldOf commitRun)"
  by (simp add: commitRun_def)

lemma lateThrowRun_value:
  "lateThrowRun =
     ([errorResult (Error ''spawn ENOENT'')],
      [Invoked lintHook,
       Published (hookEvent PreCommit commitContext lintHook (errorResult (Error ''spawn ENOENT'')))],
      1250)"
  by (simp add: lateThrowRun_def executeHooksWith_def lintService_hooks executeHooksLoop.simps
      lateThrowRunner_def lintHook_def scriptHook_def hookEvent_def)

section \<open>The loader: auxiliary facts\<close>

lemma hookTypeValue_inj: "hookTypeValue t1 = hookTypeValue t2 \<Longrightarrow> t1 = t2"
  by (cases t1; cases t2) simp_all

lemma hookTypeOfName_value: "hookTypeOfName (hookTypeValue ty) = Some ty"
  by (cases ty) (simp_all add: hookTypeOfName_def hookTypeValues_def)

lemma hookTypeOfName_Some: "hookTypeOfName name = Some ty \<Longrightarrow> name = hookTypeValue ty"
  by (auto simp: hookTypeOfName_def find_Some_iff)

lemma registerConfigs_view:
  "wellFormed s \<Longrightarrow>
     wellFormed (registerConfigs ty cs s) \<and>
     nextArray s \<le> nextArray (registerConfigs ty cs s) \<and>
     (\<forall>ty'. getHooks ty' (registerConfigs ty cs s) =
        getHooks ty' s @ (if ty' = ty then hooksAmong cs else []))"
proof (induction cs arbitrary: s)
  case Nil
  then show ?case by simp
next
  case (Cons c cs)
  show ?case
  proof (cases c)
    case (JObject r ps)
    let ?s1 = "snd (registerHook ty (r, asHookConfiguration ps) s)"
    have wf1: "wellFormed ?s1" using Cons.prems by (rule wellFormed_registerHook)
    have n1: "nextArray s \<le> nextArray ?s1"
      by (simp add: registerHook_state split: option.splits)
    from Cons.IH[OF wf1] n1 show ?thesis
      using JObject Cons.prems
      by (auto simp: getHooks_registerHook_same getHooks_registerHook_other)
  qed (use Cons in auto)
qed

lemma loadEntries_view:
  "wellFormed s \<Longrightarrow>
     wellFormed (loadEntries es s) \<and>
     nextArray s \<le> nextArray (loadEntries es s) \<and>
     (\<forall>ty. getHooks ty (loadEntries es s) = getHooks ty s @ contributedEntries ty es)"
proof (induction es arbitrary: s)
  case Nil
  then show ?case by simp
next
  case (Cons e es)
  obtain name v where e: "e = (name, v)" by (cases e)
  show ?case
  proof (cases "hookTypeOfName name")
    case None
    then have "\<And>ty. name \<noteq> hookTypeValue ty" using hookTypeOfName_value by fastforce
    with Cons.IH[OF Cons.prems] None e show ?thesis by simp
  next
    case (Some t)
    then have name: "name = hookTypeValue t" by (rule hookTypeOfName_Some)
    let ?s1 = "registerConfigs t (configsOf v) s"
    from registerConfigs_view[OF Cons.prems, of t "configsOf v"]
    have wf1: "wellFormed ?s1" and n1: "nextArray s \<le> nextArray ?s1"
      and v1: "\<And>ty'. getHooks ty' ?s1 = getHooks ty' s @ (if ty' = t then hooksAmong (configsOf v) else [])"
      by simp_all
    from Cons.IH[OF wf1] n1 v1 show ?thesis
      using Some e name by (auto dest: hookTypeValue_inj)
  qed
qed

lemma wellFormed_cleared: "wellFormed (s\<lparr>registeredHooks := (\<lambda>_. None)\<rparr>)"
  by (simp add: wellFormed_iff)

lemma getHooks_cleared: "getHooks ty (s\<lparr>registeredHooks := (\<lambda>_. None)\<rparr>) = []"
  by (simp add: getHooks_def)

lemma providesHooks_cases:
  assumes "providesHooks c"
  obtains r ps r' es where "c = JObject r ps" and "map_of ps ''hooks'' = Some (JObject r' es)"
proof (cases c)
  case (JObject r ps)
  with assms obtain h where h: "map_of ps ''hooks'' = Some h"
    by (auto simp: providesHooks_def split: option.splits)
  with assms JObject obtain r' es where "h = JObject r' es"
    by (cases h) (auto simp: providesHooks_def)
  with h JObject that show ?thesis by blast
qed (use assms in \<open>auto simp: providesHooks_def\<close>)

lemma loadHooksFromConfig_provides:
  assumes "providesHooks c"
  shows "\<exists>s'. loadHooksFromConfig c s = Inr s' \<and> wellFormed s' \<and> nextArray s \<le> nextArray s' \<and>
          (\<forall>ty. getHooks ty s' = contributed ty c)"
proof -
  from assms obtain r ps r' es where c: "c = JObject r ps" and h: "map_of ps ''hooks'' = Some (JObject r' es)"
    by (rule providesHooks_cases)
  show ?thesis
    using loadEntries_view[OF wellFormed_cleared, of es s]
    by (simp add: c h loadHooksFromConfig_def contributed_def getHooks_cleared)
qed

lemma loadHooksFromConfig_not_provides:
  "\<not> providesHooks c \<Longrightarrow> loadHooksFromConfig c s = Inr s \<or> loadHooksFromConfig c s = Inl TypeError"
  by (cases c) (auto simp: providesHooks_def loadHooksFromConfig_def split: json.splits option.splits)

lemma loadHooksFromConfig_object_total:
  "isObject c \<Longrightarrow> \<exists>s'. loadHooksFromConfig c s = Inr s'"
  by (cases c) (auto simp: loadHooksFromConfig_def split: option.splits)

lemma providesHooks_isObject: "providesHooks c \<Longrightarrow> isTruthy c \<and> isObject c"
  by (cases c) (auto simp: providesHooks_def)


lemma settings_part:
  "\<exists>s1. (case config of
              Some c \<Rightarrow> if isTruthy c \<and> isObject c then loadHooksFromConfig c s else Inr s
            | None \<Rightarrow> Inr s) = Inr s1 \<and>
        (if settingsProvide config
         then wellFormed s1 \<and> nextArray s \<le> nextArray s1 \<and> (\<forall>ty. getHooks ty s1 = fromSettings ty config)
         else s1 = s)"
proof (cases config)
  case None
  then show ?thesis by (simp add: settingsProvide_def)
next
  case (Some c)
  show ?thesis
  proof (cases "providesHooks c")
    case True
    from loadHooksFromConfig_provides[OF True, of s] providesHooks_isObject[OF True]
    show ?thesis using Some True by (auto simp: settingsProvide_def fromSettings_def)
  next
    case False
    show ?thesis
    proof (cases "isTruthy c \<and> isObject c")
      case True
      with loadHooksFromConfig_object_total[of c s] loadHooksFromConfig_not_provides[OF False, of s]
      show ?thesis using Some False by (auto simp: settingsProvide_def)
    next
      case False
      then show ?thesis using Some \<open>\<not> providesHooks c\<close> by (auto simp: settingsProvide_def)
    qed
  qed
qed

lemma file_part:
  "\<exists>s2. (case hf of
             NoWorkspaceFolder \<Rightarrow> Inr t
           | Unreadable \<Rightarrow> Inr t
           | Parsed hooksConfig \<Rightarrow>
               (case loadHooksFromConfig hooksConfig t of
                  Inl e \<Rightarrow> Inr t
                | Inr s2 \<Rightarrow> Inr s2)) = (Inr s2 :: error + HooksService) \<and>
        (if fileProvides hf
         then wellFormed s2 \<and> nextArray t \<le> nextArray s2 \<and> (\<forall>ty. getHooks ty s2 = fromFile ty hf)
         else s2 = t)"
proof (cases hf)
  case (Parsed c)
  show ?thesis
  proof (cases "providesHooks c")
    case True
    from loadHooksFromConfig_provides[OF True, of t]
    show ?thesis using Parsed True by (auto simp: fileProvides_def fromFile_def)
  next
    case False
    from loadHooksFromConfig_not_provides[OF False, of t]
    show ?thesis using Parsed False by (auto simp: fileProvides_def)
  qed
qed (simp_all add: fileProvides_def)

lemma loadWorkspaceHooks_view:
  "\<exists>s'. loadWorkspaceHooks config file s = Inr s' \<and>
        (if fileProvides file
         then wellFormed s' \<and> nextArray s \<le> nextArray s' \<and> (\<forall>ty. getHooks ty s' = fromFile ty file)
         else if settingsProvide config
         then wellFormed s' \<and> nextArray s \<le> nextArray s' \<and> (\<forall>ty. getHooks ty s' = fromSettings ty config)
         else s' = s)"
proof -
  from settings_part[where config=config and s=s] obtain s1 where
    1: "(case config of
              Some c \<Rightarrow> if isTruthy c \<and> isObject c then loadHooksFromConfig c s else Inr s
            | None \<Rightarrow> Inr s) = Inr s1"
    and p1: "if settingsProvide config
         then wellFormed s1 \<and> nextArray s \<le> nextArray s1 \<and> (\<forall>ty. getHooks ty s1 = fromSettings ty config)
         else s1 = s"
    by blast
  from file_part[where hf="file" and t=s1] obtain s2 where
    2: "(case file of
             NoWorkspaceFolder \<Rightarrow> Inr s1
           | Unreadable \<Rightarrow> Inr s1
           | Parsed hooksConfig \<Rightarrow>
               (case loadHooksFromConfig hooksConfig s1 of
                  Inl e \<Rightarrow> Inr s1
                | Inr s2 \<Rightarrow> Inr s2)) = (Inr s2 :: error + HooksService)"
    and p2: "if fileProvides file
         then wellFormed s2 \<and> nextArray s1 \<le> nextArray s2 \<and> (\<forall>ty. getHooks ty s2 = fromFile ty file)
         else s2 = s1"
    by blast
  have "loadWorkspaceHooks config file s = Inr s2"
    unfolding loadWorkspaceHooks_def 1 using 2 by simp
  moreover have "nextArray s \<le> nextArray s1"
    using p1 by (auto split: if_splits)
  ultimately show ?thesis
    using p1 p2 by (auto split: if_splits)
qed

section \<open>Arrays that have left the map: auxiliary facts\<close>

lemma heldOnlyBy_iff:
  "heldOnlyBy a tys s \<longleftrightarrow>
     a < nextArray s \<and> (\<forall>ty. registeredHooks s ty = Some a \<longrightarrow> ty \<in> set tys)"
  unfolding heldOnlyBy_def list_all_iff hookTypeValues_UNIV by auto

lemma heldOnlyBy_registerHook:
  "heldOnlyBy a tys s \<Longrightarrow> heldOnlyBy a tys (snd (registerHook ty c s))"
  unfolding heldOnlyBy_iff registerHook_state
  by (auto split: option.splits)

lemma heldOnlyBy_dispose:
  "heldOnlyBy a tys s \<Longrightarrow> heldOnlyBy a tys (snd (dispose d s))"
  unfolding heldOnlyBy_iff dispose_def unregister_state by simp

lemma heldOnlyBy_clearHooks:
  "heldOnlyBy a tys s \<Longrightarrow> heldOnlyBy a (removeAll ty tys) (clearHooks ty s)"
  unfolding heldOnlyBy_iff clearHooks_def by simp

lemma heldOnlyBy_mono:
  "heldOnlyBy a tys s \<Longrightarrow> set tys \<subseteq> set tys' \<Longrightarrow> heldOnlyBy a tys' s"
  unfolding heldOnlyBy_iff by blast

lemma heldOnlyBy_registerConfigs:
  "heldOnlyBy a tys s \<Longrightarrow> heldOnlyBy a tys (registerConfigs ty cs s)"
proof (induction cs arbitrary: s)
  case Nil
  then show ?case by simp
next
  case (Cons c cs)
  then show ?case by (cases c) (auto intro: heldOnlyBy_registerHook)
qed

lemma heldOnlyBy_loadEntries:
  "heldOnlyBy a tys s \<Longrightarrow> heldOnlyBy a tys (loadEntries es s)"
proof (induction es arbitrary: s)
  case Nil
  then show ?case by simp
next
  case (Cons e es)
  then show ?case
    by (cases e) (auto split: option.splits intro: heldOnlyBy_registerConfigs)
qed

lemma heldOnlyBy_cleared:
  "heldOnlyBy a tys s \<Longrightarrow> heldOnlyBy a [] (s\<lparr>registeredHooks := (\<lambda>_. None)\<rparr>)"
  unfolding heldOnlyBy_iff by simp

lemma heldOnlyBy_loadHooksFromConfig:
  assumes "heldOnlyBy a tys s" and "loadHooksFromConfig c s = Inr s'"
  shows "heldOnlyBy a tys s' \<and> (providesHooks c \<longrightarrow> heldOnlyBy a [] s')"
proof (cases "providesHooks c")
  case True
  then obtain r ps r' es where c: "c = JObject r ps" and h: "map_of ps ''hooks'' = Some (JObject r' es)"
    by (rule providesHooks_cases)
  from assms(2) have "s' = loadEntries es (s\<lparr>registeredHooks := (\<lambda>_. None)\<rparr>)"
    by (simp add: c h loadHooksFromConfig_def)
  with heldOnlyBy_loadEntries[OF heldOnlyBy_cleared[OF assms(1)], of es]
  have "heldOnlyBy a [] s'" by simp
  then show ?thesis using heldOnlyBy_mono[of a "[]" s' tys] by simp
next
  case False
  with loadHooksFromConfig_not_provides[OF False, of s] assms show ?thesis by simp
qed

lemma heldOnlyBy_loadWorkspaceHooks:
  assumes "heldOnlyBy a tys s" and "loadWorkspaceHooks config hf s = Inr s'"
  shows "heldOnlyBy a tys s' \<and> (settingsProvide config \<or> fileProvides hf \<longrightarrow> heldOnlyBy a [] s')"
proof -
  from settings_part[where config=config and s=s] obtain s1 where
    1: "(case config of
              Some c \<Rightarrow> if isTruthy c \<and> isObject c then loadHooksFromConfig c s else Inr s
            | None \<Rightarrow> Inr s) = Inr s1"
    by blast
  have h1: "heldOnlyBy a tys s1 \<and> (settingsProvide config \<longrightarrow> heldOnlyBy a [] s1)"
  proof (cases config)
    case None
    with 1 assms(1) show ?thesis by (simp add: settingsProvide_def)
  next
    case (Some c)
    show ?thesis
    proof (cases "isTruthy c \<and> isObject c")
      case True
      with 1 Some have "loadHooksFromConfig c s = Inr s1" by simp
      from heldOnlyBy_loadHooksFromConfig[OF assms(1) this] Some
      show ?thesis by (simp add: settingsProvide_def)
    next
      case False
      with 1 Some have "s1 = s" by auto
      moreover from False have "\<not> providesHooks c" using providesHooks_isObject by blast
      ultimately show ?thesis using assms(1) Some by (simp add: settingsProvide_def)
    qed
  qed
  from assms(2) have 2: "(case hf of
             NoWorkspaceFolder \<Rightarrow> Inr s1
           | Unreadable \<Rightarrow> Inr s1
           | Parsed hooksConfig \<Rightarrow>
               (case loadHooksFromConfig hooksConfig s1 of
                  Inl e \<Rightarrow> Inr s1
                | Inr s2 \<Rightarrow> Inr s2)) = (Inr s' :: error + HooksService)"
    unfolding loadWorkspaceHooks_def 1 by simp
  show ?thesis
  proof (cases hf)
    case (Parsed c)
    show ?thesis
    proof (cases "loadHooksFromConfig c s1")
      case (Inl e)
      with 2 Parsed have "s' = s1" by simp
      moreover have "\<not> providesHooks c"
        using loadHooksFromConfig_provides[of c s1] Inl by auto
      ultimately show ?thesis using h1 Parsed by (simp add: fileProvides_def)
    next
      case (Inr s2)
      with 2 Parsed have "s' = s2" by simp
      with heldOnlyBy_loadHooksFromConfig[OF conjunct1[OF h1] Inr] h1 heldOnlyBy_loadHooksFromConfig[of a "[]" s1 c s2] Inr
      show ?thesis using Parsed by (auto simp: fileProvides_def)
    qed
  qed (use 2 h1 in \<open>auto simp: fileProvides_def\<close>)
qed

lemma heldOnlyBy_perform:
  assumes "heldOnlyBy a tys s"
  shows "heldOnlyBy a tys (perform op s)"
proof (cases op)
  case (Register ty c)
  then show ?thesis using assms by (simp add: heldOnlyBy_registerHook)
next
  case (Dispose d)
  then show ?thesis using assms by (simp add: heldOnlyBy_dispose)
next
  case (Clear ty)
  then show ?thesis
    using heldOnlyBy_mono[OF heldOnlyBy_clearHooks[OF assms, of ty], of tys] by auto
next
  case (Reload config hf)
  then show ?thesis
    using assms heldOnlyBy_loadWorkspaceHooks[OF assms, of config hf]
    by (auto split: sum.splits)
qed

lemma heldOnlyBy_detaches:
  assumes "heldOnlyBy a [ty] s" and "detaches ty op"
  shows "heldOnlyBy a [] (perform op s)"
proof (cases op)
  case (Clear ty')
  with assms(2) have "ty' = ty" by simp
  with heldOnlyBy_clearHooks[OF assms(1), of ty] Clear show ?thesis by simp
next
  case (Reload config hf)
  from loadWorkspaceHooks_view[of config hf s] obtain s' where l: "loadWorkspaceHooks config hf s = Inr s'"
    by blast
  from heldOnlyBy_loadWorkspaceHooks[OF assms(1) l] assms(2) Reload have "heldOnlyBy a [] s'"
    by auto
  with l Reload show ?thesis by simp
qed (use assms(2) in auto)

lemma heldOnlyBy_fold:
  "heldOnlyBy a tys s \<Longrightarrow> heldOnlyBy a tys (fold perform ops s)"
  by (induction ops arbitrary: s) (auto intro: heldOnlyBy_perform)

lemma heldOnlyBy_registered:
  assumes "wellFormed s"
  shows "heldOnlyBy (capturedHooks (fst (registerHook ty c s))) [ty] (snd (registerHook ty c s))"
proof -
  have lt: "registeredHooks s t = Some a \<Longrightarrow> a < nextArray s" for t a
    using assms by (simp add: wellFormed_iff)
  have inj: "registeredHooks s t1 = Some a \<Longrightarrow> registeredHooks s t2 = Some a \<Longrightarrow> t1 = t2" for t1 t2 a
    using assms unfolding wellFormed_iff by blast
  show ?thesis
    unfolding heldOnlyBy_iff registerHook_state registerHook_handle
    by (auto split: option.splits dest: lt inj)
qed

lemma dispose_detached:
  assumes "heldOnlyBy (capturedHooks d) [] s"
  shows "getHooks ty (snd (dispose d s)) = getHooks ty s"
    and "registeredHooks (snd (dispose d s)) = registeredHooks s"
    and "nextArray (snd (dispose d s)) = nextArray s"
  using assms unfolding heldOnlyBy_iff dispose_def unregister_state getHooks_def
  by (auto split: option.splits)




text \<open>Every state that a new service reaches by the operations is well formed.\<close>

lemma wellFormed_clearHooks: "wellFormed s \<Longrightarrow> wellFormed (clearHooks ty s)"
  unfolding wellFormed_iff clearHooks_def by (auto split: if_splits)

lemma wellFormed_dispose: "wellFormed s \<Longrightarrow> wellFormed (snd (dispose d s))"
  unfolding wellFormed_iff dispose_def unregister_state by simp

lemma wellFormed_perform: "wellFormed s \<Longrightarrow> wellFormed (perform op s)"
proof (cases op)
  case (Reload config hf)
  assume "wellFormed s"
  with loadWorkspaceHooks_view[of config hf s] Reload show ?thesis
    by (auto split: if_splits)
qed (simp_all add: wellFormed_registerHook wellFormed_dispose wellFormed_clearHooks)

lemma wellFormed_fold: "wellFormed s \<Longrightarrow> wellFormed (fold perform ops s)"
  by (induction ops arbitrary: s) (auto intro: wellFormed_perform)

lemma wellFormed_reachable: "wellFormed (fold perform ops newHooksService)"
  using wellFormed_fold[OF wellFormed_new] .



section \<open>Content without addresses: auxiliary facts\<close>

lemma map_of_erase:
  "map_of (map (\<lambda>(k, v). (k, erase v)) ps) k = map_option erase (map_of ps k)"
  by (induction ps) auto

lemma asString_erase: "asString (erase v) = asString v"
  by (cases v) simp_all

lemma asNumber_erase: "asNumber (erase v) = asNumber v"
  by (cases v) simp_all

lemma asBoolean_erase: "asBoolean (erase v) = asBoolean v"
  by (cases v) simp_all

lemma isTruthy_erase: "isTruthy (erase v) = isTruthy v"
  by (cases v) simp_all

lemma asStrings_erase: "asStrings (map erase xs) = asStrings xs"
  by (induction xs rule: asStrings.induct) simp_all

lemma asStringArray_erase: "asStringArray (erase v) = asStringArray v"
  by (cases v) (simp_all add: asStrings_erase)

lemma asStringProperties_erase:
  "asStringProperties (map (\<lambda>(k, v). (k, erase v)) ps) = asStringProperties ps"
  by (induction ps rule: asStringProperties.induct) simp_all

lemma asStringMap_erase: "asStringMap (erase v) = asStringMap v"
  by (cases v) (simp_all add: asStringProperties_erase)

lemma bind_erase:
  "(\<And>v. f (erase v) = f v) \<Longrightarrow>
     Option.bind (map_of (map (\<lambda>(k, v). (k, erase v)) ps) k) f = Option.bind (map_of ps k) f"
  by (cases "map_of ps k") (simp_all add: map_of_erase)

lemma truthy_erase:
  "map_option isTruthy (map_of (map (\<lambda>(k, v). (k, erase v)) ps) k) =
     map_option isTruthy (map_of ps k)"
  by (cases "map_of ps k") (simp_all add: map_of_erase isTruthy_erase)

lemma asHookConfiguration_erase:
  "asHookConfiguration (map (\<lambda>(k, v). (k, erase v)) ps) = asHookConfiguration ps"
  by (simp add: asHookConfiguration_def bind_erase asString_erase asNumber_erase asBoolean_erase
      asStringArray_erase asStringMap_erase truthy_erase)

lemma hooksAmong_erase: "map snd (hooksAmong (map erase xs)) = map snd (hooksAmong xs)"
  by (induction xs rule: hooksAmong.induct) (simp_all add: asHookConfiguration_erase)

lemma configsOf_erase: "configsOf (erase v) = map erase (configsOf v)"
  by (cases v) simp_all

lemma contributedEntries_erase:
  "map snd (contributedEntries ty (map (\<lambda>(k, v). (k, erase v)) es)) = map snd (contributedEntries ty es)"
  by (induction es) (auto simp: configsOf_erase hooksAmong_erase)

lemma contributed_erase: "map snd (contributed ty (erase c)) = map snd (contributed ty c)"
proof (cases c)
  case (JObject r ps)
  show ?thesis
  proof (cases "map_of ps ''hooks''")
    case None
    then show ?thesis using JObject by (simp add: contributed_def map_of_erase)
  next
    case (Some h)
    then show ?thesis using JObject
      by (cases h) (simp_all add: contributed_def map_of_erase contributedEntries_erase)
  qed
qed (simp_all add: contributed_def)

lemma providesHooks_erase: "providesHooks (erase c) = providesHooks c"
proof (cases c)
  case (JObject r ps)
  show ?thesis
  proof (cases "map_of ps ''hooks''")
    case None
    then show ?thesis using JObject by (simp add: providesHooks_def map_of_erase)
  next
    case (Some h)
    then show ?thesis using JObject
      by (cases h) (simp_all add: providesHooks_def map_of_erase)
  qed
qed (simp_all add: providesHooks_def)

lemma settings_erase:
  "settingsProvide (eraseSettings config) = settingsProvide config"
  "map snd (fromSettings ty (eraseSettings config)) = map snd (fromSettings ty config)"
  by (cases config; simp add: settingsProvide_def fromSettings_def eraseSettings_def
      providesHooks_erase contributed_erase)+

lemma file_erase:
  "fileProvides (eraseFile hf) = fileProvides hf"
  "map snd (fromFile ty (eraseFile hf)) = map snd (fromFile ty hf)"
  by (cases hf; simp add: fileProvides_def fromFile_def providesHooks_erase contributed_erase)+

lemma same_settings:
  assumes "eraseSettings config' = eraseSettings config"
  shows "settingsProvide config' = settingsProvide config"
    and "map snd (fromSettings ty config') = map snd (fromSettings ty config)"
  using settings_erase(1)[of config'] settings_erase(1)[of config] assms
    settings_erase(2)[of ty config'] settings_erase(2)[of ty config] by simp_all

lemma same_file:
  assumes "eraseFile hf' = eraseFile hf"
  shows "fileProvides hf' = fileProvides hf"
    and "map snd (fromFile ty hf') = map snd (fromFile ty hf)"
  using file_erase(1)[of hf'] file_erase(1)[of hf] assms
    file_erase(2)[of ty hf'] file_erase(2)[of ty hf] by simp_all

section \<open>The example inputs: auxiliary facts\<close>

lemma getHooks_clearHooks_same: "getHooks ty (clearHooks ty s) = []"
  by (simp add: getHooks_def clearHooks_def)

lemma afterClear_hooks: "getHooks PreCommit afterClear = [formatHook]"
  by (simp add: afterClear_def getHooks_registerHook_same getHooks_clearHooks_same)

lemma fileExample_provides: "fileProvides fileExample"
  by (simp add: fileProvides_def fileExample_def providesHooks_def)

lemma fileExample_hooks: "fromFile PreCommit fileExample = [fileHook]"
  by (simp add: fromFile_def fileExample_def contributed_def fileHook_def asHookConfiguration_def)

lemma settingsExample_provides: "settingsProvide (Some settingsExample)"
  by (simp add: settingsProvide_def settingsExample_def providesHooks_def)

lemma settingsExample_hooks: "fromSettings PreCommit (Some settingsExample) = [globalHook]"
  by (simp add: fromSettings_def settingsExample_def contributed_def globalHook_def
      asHookConfiguration_def scriptHook_def)

lemma perform_Reload_view:
  "getHooks ty (perform (Reload config hf) s) =
     (if fileProvides hf then fromFile ty hf
      else if settingsProvide config then fromSettings ty config
      else getHooks ty s)"
  using loadWorkspaceHooks_view[of config hf s] by (auto split: if_splits)

lemma afterReload_hooks: "getHooks PreCommit afterReload = [fileHook]"
  by (simp add: afterReload_def perform_Reload_view fileExample_provides fileExample_hooks
      del: perform.simps)




lemma hooklessFile_provides: "\<not> fileProvides hooklessFile"
  by (simp add: fileProvides_def hooklessFile_def providesHooks_def)

lemma staleHandle_registered:
  "registerHook PreCommit lintHook newHooksService = (staleHandle, lintService)"
  by (simp add: staleHandle_def lintService_def)

section \<open>Execution: the properties\<close>

text \<open>
  C7. When the registry has no hook for an event type (no list for the type, or an empty
  one), \<^verbatim>\<open>executeHooks\<close> returns the empty sequence, publishes no event and calls no hook:
  nothing is observed and the world is as before. This holds for every way of executing
  a hook, the simulation of the source among them.
\<close>

theorem no_hooks_no_effect:
  "\<not> hasHooks ty s \<Longrightarrow> executeHooksWith run ty ctx s w = ([], [], w)"
  by (simp add: hasHooks_getHooks executeHooksWith_def)

theorem no_hooks_no_effect_witness:
  "\<not> hasHooks FileSave newHooksService \<and>
   executeHooks FileSave commitContext newHooksService 0 = ([], [], 0) \<and>
   \<not> hasHooks FileSave commitService \<and>
   executeHooksWith commitRunner FileSave commitContext commitService 0 = ([], [], 0)"
proof -
  have a: "\<not> hasHooks FileSave newHooksService"
    by (simp add: hasHooks_getHooks getHooks_new)
  have b: "\<not> hasHooks FileSave commitService"
    by (simp add: hasHooks_getHooks commitService_def getHooks_registerHook_other
        wellFormed_registerHook wellFormed_new getHooks_new)
  show ?thesis
    unfolding executeHooks_def
    using a b no_hooks_no_effect[OF a, of executeHook commitContext 0]
      no_hooks_no_effect[OF b, of commitRunner commitContext 0]
    by blast
qed

text \<open>
  C5. In every call of \<^verbatim>\<open>executeHooks\<close>, the hooks that are executed are the first hooks of
  the list, as many as there are results: the world after the call is the world in which
  exactly these have been called, one after the other. What is observed is, for each of
  them and in the order of the list, the call of the hook followed at once by one event
  that carries the type, that configuration, the result recorded for it and the context;
  so each executed hook has exactly one event, published before the next hook is called.
  The result recorded is the one returned, or the error result when the call threw. The
  first hook of a list that is not empty is always executed.
\<close>

theorem one_event_per_executed_hook:
  "actionsOf (executeHooksWith run ty ctx s w) =
     callThenEvent ty ctx (zip (getHooks ty s) (resultsOf (executeHooksWith run ty ctx s w)))
   \<and> resultsOf (executeHooksWith run ty ctx s w) =
       map recorded (take (length (resultsOf (executeHooksWith run ty ctx s w)))
         (outcomesInOrder run ctx (getHooks ty s) w))
   \<and> length (resultsOf (executeHooksWith run ty ctx s w)) \<le> length (getHooks ty s)
   \<and> worldOf (executeHooksWith run ty ctx s w) =
       fold (\<lambda>h v. snd (run h ctx v))
         (take (length (resultsOf (executeHooksWith run ty ctx s w))) (getHooks ty s)) w
   \<and> (resultsOf (executeHooksWith run ty ctx s w) = []) = (getHooks ty s = [])"
proof -
  obtain rs tr w' where e: "executeHooksLoop run ty ctx (getHooks ty s) [] [] w = (rs, tr, w')"
    by (cases "executeHooksLoop run ty ctx (getHooks ty s) [] [] w")
  from loop_trace[OF e] loop_results[OF e] loop_world[OF e] e
    loop_first[of run ty ctx "getHooks ty s" w]
  show ?thesis
    by (simp add: executeHooksWith_def)
qed

theorem one_event_per_executed_hook_witness:
  "actionsOf commitRun =
     callThenEvent PreCommit commitContext (zip (getHooks PreCommit commitService) (resultsOf commitRun))
   \<and> worldOf commitRun =
       fold (\<lambda>h v. snd (commitRunner h commitContext v))
         (take (length (resultsOf commitRun)) (getHooks PreCommit commitService)) 0
   \<and> length (resultsOf commitRun) = 2
   \<and> length (published (actionsOf commitRun)) = 2
   \<and> length (invoked (actionsOf commitRun)) = 2
   \<and> worldOf commitRun = 2"
proof -
  have "actionsOf commitRun =
     callThenEvent PreCommit commitContext (zip (getHooks PreCommit commitService) (resultsOf commitRun))"
    unfolding commitRun_def
    by (rule conjunct1[OF one_event_per_executed_hook])
  moreover have "worldOf commitRun =
       fold (\<lambda>h v. snd (commitRunner h commitContext v))
         (take (length (resultsOf commitRun)) (getHooks PreCommit commitService)) 0"
    unfolding commitRun_def
    by (rule conjunct1[OF conjunct2[OF conjunct2[OF conjunct2[OF one_event_per_executed_hook]]]])
  moreover have "length (resultsOf commitRun) = 2"
    by (simp add: commitRun_value)
  moreover have "length (published (actionsOf commitRun)) = 2"
    by (simp add: commitRun_value)
  moreover have "length (invoked (actionsOf commitRun)) = 2"
    by (simp add: commitRun_value)
  moreover have "worldOf commitRun = 2"
    by (simp add: commitRun_value)
  ultimately show ?thesis by blast
qed

text \<open>
  C1. Let the hook at position \<open>i\<close> of the list (counted from 0, so it is hook \<open>i + 1\<close> of
  \<open>n\<close>) be executed in a call of \<^verbatim>\<open>executeHooks\<close>; its entry in the returned sequence is
  what the hook produced, and the world after the call is the world in which exactly the
  first hooks of the list, as many as there are results, have been called. If that entry
  has \<^verbatim>\<open>success = false\<close> and the configuration has \<^verbatim>\<open>abortOnFailure = true\<close>, the returned sequence
  has exactly \<open>i + 1\<close> entries, the hooks called are the first \<open>i + 1\<close> of the list, the world is
  the one these \<open>i + 1\<close> calls leave, and the events published are those of the first \<open>i + 1\<close>
  hooks: no later hook is called and none has an event. If the entry is a success, or
  \<^verbatim>\<open>abortOnFailure\<close> is false or absent, and there is a next hook, the next hook is called.
\<close>

theorem abort_on_failure:
  assumes "executeHooksWith run ty ctx s w = (rs, tr, w')" and "i < length rs"
  shows "rs ! i = recorded (outcomesInOrder run ctx (getHooks ty s) w ! i)
    \<and> w' = fold (\<lambda>h v. snd (run h ctx v)) (take (length rs) (getHooks ty s)) w
    \<and> (\<not> success (rs ! i) \<and> truthy (abortOnFailure (snd (getHooks ty s ! i))) \<longrightarrow>
         length rs = Suc i \<and> invoked tr = take (Suc i) (getHooks ty s)
         \<and> map configuration (published tr) = take (Suc i) (getHooks ty s)
         \<and> w' = fold (\<lambda>h v. snd (run h ctx v)) (take (Suc i) (getHooks ty s)) w)
    \<and> ((success (rs ! i) \<or> \<not> truthy (abortOnFailure (snd (getHooks ty s ! i))))
         \<and> Suc i < length (getHooks ty s) \<longrightarrow>
         Suc i < length rs \<and> invoked tr ! Suc i = getHooks ty s ! Suc i)"
proof -
  let ?hs = "getHooks ty s"
  from assms(1) have e: "executeHooksLoop run ty ctx ?hs [] [] w = (rs, tr, w')"
    by (simp add: executeHooksWith_def)
  from loop_trace[OF e] have tr: "tr = callThenEvent ty ctx (zip ?hs rs)" and le: "length rs \<le> length ?hs"
    by simp_all
  have inv: "invoked tr = take (length rs) ?hs"
    using le by (simp add: tr invoked_callThenEvent map_fst_zip_take min_def)
  have pub: "map configuration (published tr) = take (length rs) ?hs"
  proof -
    have "map configuration (published tr) = map fst (zip ?hs rs)"
      by (simp add: tr published_callThenEvent hookEvent_def case_prod_unfold comp_def)
    then show ?thesis using le by (simp add: map_fst_zip_take min_def)
  qed
  have r: "rs ! i = recorded (outcomesInOrder run ctx ?hs w ! i)"
    using executed_result[OF assms] .
  have wd: "w' = fold (\<lambda>h v. snd (run h ctx v)) (take (length rs) ?hs) w"
    using loop_world[OF e] .
  have a: "length rs = Suc i" if "\<not> success (rs ! i)" "truthy (abortOnFailure (snd (?hs ! i)))"
    using loop_abort[OF e assms(2) that] .
  have c: "Suc i < length rs"
    if "success (rs ! i) \<or> \<not> truthy (abortOnFailure (snd (?hs ! i)))" "Suc i < length ?hs"
    using loop_continue[OF e assms(2) _ that(2)] that(1) by blast
  have n: "invoked tr ! Suc i = ?hs ! Suc i" if "Suc i < length rs"
    using that by (simp add: inv)
  show ?thesis
    using r wd a c n inv pub by metis
qed

theorem abort_on_failure_witness:
  "\<not> success (resultsOf commitRun ! 1)
   \<and> truthy (abortOnFailure (snd (getHooks PreCommit commitService ! 1)))
   \<and> length (resultsOf commitRun) = Suc 1
   \<and> invoked (actionsOf commitRun) = take (Suc 1) (getHooks PreCommit commitService)
   \<and> map configuration (published (actionsOf commitRun)) = take (Suc 1) (getHooks PreCommit commitService)
   \<and> worldOf commitRun =
       fold (\<lambda>h v. snd (commitRunner h commitContext v)) (take (Suc 1) (getHooks PreCommit commitService)) 0
   \<and> worldOf commitRun = 2
   \<and> fold (\<lambda>h v. snd (commitRunner h commitContext v)) (getHooks PreCommit commitService) 0 = 3
   \<and> \<not> success (resultsOf commitRun ! 0)
   \<and> \<not> truthy (abortOnFailure (snd (getHooks PreCommit commitService ! 0)))
   \<and> Suc 0 < length (getHooks PreCommit commitService)
   \<and> Suc 0 < length (resultsOf commitRun)
   \<and> invoked (actionsOf commitRun) ! Suc 0 = getHooks PreCommit commitService ! Suc 0"
proof -
  have i1: "1 < length (resultsOf commitRun)" and i0: "0 < length (resultsOf commitRun)"
    by (simp_all add: commitRun_value)
  have f1: "\<not> success (resultsOf commitRun ! 1)" and f0: "\<not> success (resultsOf commitRun ! 0)"
    by (simp_all add: commitRun_value errorResult_def)
  have a1: "truthy (abortOnFailure (snd (getHooks PreCommit commitService ! 1)))"
    by (simp add: commitService_hooks lintHook_def scriptHook_def)
  have a0: "\<not> truthy (abortOnFailure (snd (getHooks PreCommit commitService ! 0)))"
    by (simp add: commitService_hooks formatHook_def scriptHook_def)
  have n: "Suc 0 < length (getHooks PreCommit commitService)"
    by (simp add: commitService_hooks)
  have w2: "worldOf commitRun = 2"
    by (simp add: commitRun_value)
  have w3: "fold (\<lambda>h v. snd (commitRunner h commitContext v)) (getHooks PreCommit commitService) 0 = 3"
    by (simp add: commitService_hooks commitRunner_def)
  show ?thesis
    using abort_on_failure[OF commitRun_split i1] abort_on_failure[OF commitRun_split i0]
      f1 f0 a1 a0 n w2 w3
    by blast
qed

text \<open>
  C6, as amended. A hook whose execution throws does not make \<^verbatim>\<open>executeHooks\<close> throw: the
  call returns, and the entry of that hook in the returned sequence has \<^verbatim>\<open>success = false\<close>,
  \<^verbatim>\<open>exitCode = -1\<close>, an empty \<^verbatim>\<open>stdout\<close>, \<^verbatim>\<open>stderr\<close> set to the message of the thrown error (the
  rendering of the thrown value when it is not an \<^verbatim>\<open>Error\<close>), and \<^verbatim>\<open>executionTime = 0\<close>
  whatever time has passed.
\<close>

theorem thrown_becomes_error_result:
  assumes "executeHooksWith run ty ctx s w = (rs, tr, w')" and "i < length rs"
    and "outcomesInOrder run ctx (getHooks ty s) w ! i = Threw e"
  shows "rs ! i = \<lparr>exitCode = -1, stdout = '''', stderr = errorMessage e, success = False,
                   executionTime = 0\<rparr>"
  using executed_result[OF assms(1,2)] assms(3) by (simp add: errorResult_def)

theorem thrown_becomes_error_result_witness:
  "0 < length (resultsOf commitRun)
   \<and> outcomesInOrder commitRunner commitContext (getHooks PreCommit commitService) 0 ! 0 =
       Threw (Error ''spawn ./hooks/format.sh ENOENT'')
   \<and> resultsOf commitRun ! 0 =
       \<lparr>exitCode = -1, stdout = '''',
        stderr = errorMessage (Error ''spawn ./hooks/format.sh ENOENT''), success = False,
        executionTime = 0\<rparr>"
proof -
  have i0: "0 < length (resultsOf commitRun)"
    by (simp add: commitRun_value)
  have t: "outcomesInOrder commitRunner commitContext (getHooks PreCommit commitService) 0 ! 0 =
       Threw (Error ''spawn ./hooks/format.sh ENOENT'')"
    by (simp add: commitService_hooks commitRunner_def formatHook_def scriptHook_def)
  show ?thesis
    using thrown_becomes_error_result[OF commitRun_split i0 t] i0 t by blast
qed

text \<open>
  C6 as stated fails: the lint hook throws 250 ms after it is called, and the entry
  recorded for it has an execution time that is not the time that has passed.
\<close>

theorem execution_time_not_elapsed_counterexample:
  "outcomesInOrder lateThrowRunner commitContext (getHooks PreCommit lintService) 1000 ! 0 =
     Threw (Error ''spawn ENOENT'')
   \<and> worldOf lateThrowRun - 1000 = 250
   \<and> executionTime (resultsOf lateThrowRun ! 0) = 0
   \<and> executionTime (resultsOf lateThrowRun ! 0) \<noteq> worldOf lateThrowRun - 1000"
  by (simp add: lateThrowRun_value lintService_hooks lateThrowRunner_def errorResult_def)

section \<open>The registry: the properties\<close>



text \<open>
  C4, as amended. \<^verbatim>\<open>registerHook\<close> checks nothing and never rejects: every configuration,
  whatever it has of \<^verbatim>\<open>script\<close> and \<^verbatim>\<open>command\<close>, is appended to the list of its event type, and
  the type has hooks afterwards.
\<close>

theorem registerHook_accepts_every_configuration:
  "getHooks ty (snd (registerHook ty c s)) = getHooks ty s @ [c]
   \<and> hasHooks ty (snd (registerHook ty c s))"
  by (simp add: hasHooks_getHooks getHooks_registerHook_same)

theorem registerHook_accepts_every_configuration_witness:
  "getHooks PreCommit (snd (registerHook PreCommit bothHook lintService)) =
     getHooks PreCommit lintService @ [bothHook]
   \<and> hasHooks PreCommit (snd (registerHook PreCommit bothHook lintService))"
  by (rule registerHook_accepts_every_configuration)

text \<open>
  C4 as stated fails: a configuration with neither \<^verbatim>\<open>script\<close> nor \<^verbatim>\<open>command\<close>, and one with
  both, are registered like any other.
\<close>

theorem malformed_configuration_counterexample:
  "script (snd bareHook) = None \<and> command (snd bareHook) = None
   \<and> getHooks PreCommit (snd (registerHook PreCommit bareHook newHooksService)) = [bareHook]
   \<and> script (snd bothHook) = Some ''./hooks/lint-check.sh'' \<and> command (snd bothHook) = Some ''echo''
   \<and> getHooks PreCommit (snd (registerHook PreCommit bothHook newHooksService)) = [bothHook]"
  by (simp add: getHooks_registerHook_same getHooks_new bareHook_def bothHook_def)

text \<open>
  C10. A handle goes stale when, at any time after its registration, \<^verbatim>\<open>clearHooks\<close> is
  called for its event type or a reload replaces the lists (a source provides hooks).
  Whatever the service does in between and afterwards (registrations, disposals, clears,
  reloads), invoking the stale handle leaves the list of every event type, and the map
  itself, as they are: nothing is removed and nothing comes back. \<open>dispose\<close> is a total
  function: the invocation cannot fail.
\<close>

theorem stale_handle_is_harmless:
  assumes "wellFormed s" and "registerHook ty c s = (d, s1)" and "detaches ty op"
  shows "getHooks ty' (snd (dispose d (fold perform later (perform op (fold perform earlier s1))))) =
           getHooks ty' (fold perform later (perform op (fold perform earlier s1)))
       \<and> registeredHooks (snd (dispose d (fold perform later (perform op (fold perform earlier s1))))) =
           registeredHooks (fold perform later (perform op (fold perform earlier s1)))"
proof -
  from assms(2) have s1: "s1 = snd (registerHook ty c s)" and d: "d = fst (registerHook ty c s)"
    by simp_all
  have "heldOnlyBy (capturedHooks d) [ty] s1"
    using heldOnlyBy_registered[OF assms(1), of ty c] by (simp add: s1 d)
  then have "heldOnlyBy (capturedHooks d) [ty] (fold perform earlier s1)"
    by (rule heldOnlyBy_fold)
  then have "heldOnlyBy (capturedHooks d) [] (perform op (fold perform earlier s1))"
    using assms(3) by (rule heldOnlyBy_detaches)
  then have "heldOnlyBy (capturedHooks d) [] (fold perform later (perform op (fold perform earlier s1)))"
    by (rule heldOnlyBy_fold)
  from dispose_detached(1,2)[OF this] show ?thesis by simp
qed

theorem stale_handle_is_harmless_witness:
  "wellFormed newHooksService
   \<and> detaches PreCommit (Clear PreCommit)
   \<and> getHooks PreCommit (snd (dispose staleHandle afterClear)) = getHooks PreCommit afterClear
   \<and> getHooks PreCommit afterClear = [formatHook]
   \<and> detaches PreCommit (Reload None fileExample)
   \<and> getHooks PreCommit (snd (dispose staleHandle afterReload)) = getHooks PreCommit afterReload
   \<and> getHooks PreCommit afterReload = [fileHook]"
proof -
  have c: "detaches PreCommit (Clear PreCommit)" by simp
  have r: "detaches PreCommit (Reload None fileExample)"
    by (simp add: fileExample_provides)
  have 1: "getHooks PreCommit (snd (dispose staleHandle afterClear)) = getHooks PreCommit afterClear"
    unfolding afterClear_def
    by (rule conjunct1[OF stale_handle_is_harmless[OF wellFormed_new staleHandle_registered c]])
  have 2: "getHooks PreCommit (snd (dispose staleHandle afterReload)) = getHooks PreCommit afterReload"
    unfolding afterReload_def
    by (rule conjunct1[OF stale_handle_is_harmless[OF wellFormed_new staleHandle_registered r]])
  show ?thesis
    using wellFormed_new c r 1 2 afterClear_hooks afterReload_hooks by blast
qed

section \<open>The loader: the properties\<close>

text \<open>
  C9. For given sources and any state of the registry, \<^verbatim>\<open>loadWorkspaceHooks\<close> returns, and
  a second call right after the first, with sources of the same content, leaves for every
  event type a list of configurations with the content of those that the first call has
  left; when the second call is given the very same values, the lists are the same
  objects in the same order.
\<close>

theorem reload_is_idempotent:
  assumes "eraseSettings config' = eraseSettings config" and "eraseFile hf' = eraseFile hf"
  shows "\<exists>s1 s2. loadWorkspaceHooks config hf s = Inr s1 \<and> loadWorkspaceHooks config' hf' s1 = Inr s2
     \<and> (\<forall>ty. map snd (getHooks ty s2) = map snd (getHooks ty s1))
     \<and> (config' = config \<and> hf' = hf \<longrightarrow> (\<forall>ty. getHooks ty s2 = getHooks ty s1))"
proof -
  from loadWorkspaceHooks_view[of config hf s] obtain s1 where
    1: "loadWorkspaceHooks config hf s = Inr s1" and
    v1: "if fileProvides hf
         then wellFormed s1 \<and> nextArray s \<le> nextArray s1 \<and> (\<forall>ty. getHooks ty s1 = fromFile ty hf)
         else if settingsProvide config
         then wellFormed s1 \<and> nextArray s \<le> nextArray s1 \<and> (\<forall>ty. getHooks ty s1 = fromSettings ty config)
         else s1 = s"
    by blast
  from loadWorkspaceHooks_view[of config' hf' s1] obtain s2 where
    2: "loadWorkspaceHooks config' hf' s1 = Inr s2" and
    v2: "if fileProvides hf'
         then wellFormed s2 \<and> nextArray s1 \<le> nextArray s2 \<and> (\<forall>ty. getHooks ty s2 = fromFile ty hf')
         else if settingsProvide config'
         then wellFormed s2 \<and> nextArray s1 \<le> nextArray s2 \<and> (\<forall>ty. getHooks ty s2 = fromSettings ty config')
         else s2 = s1"
    by blast
  have content: "map snd (getHooks ty s2) = map snd (getHooks ty s1)" for ty
    using v1 v2 same_settings(1)[OF assms(1)] same_settings(2)[OF assms(1), of ty]
      same_file(1)[OF assms(2)] same_file(2)[OF assms(2), of ty]
    by (auto split: if_splits)
  have same: "getHooks ty s2 = getHooks ty s1" if "config' = config" "hf' = hf" for ty
    using v1 v2 that by (auto split: if_splits)
  from 1 2 content same show ?thesis by blast
qed

theorem reload_is_idempotent_witness:
  "eraseSettings (Some settingsExample) = eraseSettings (Some settingsExample)
   \<and> eraseFile fileExampleAgain = eraseFile fileExample
   \<and> fileExampleAgain \<noteq> fileExample
   \<and> (\<exists>s1 s2. loadWorkspaceHooks (Some settingsExample) fileExample commitService = Inr s1
         \<and> loadWorkspaceHooks (Some settingsExample) fileExampleAgain s1 = Inr s2
         \<and> map snd (getHooks PreCommit s2) = map snd (getHooks PreCommit s1))
   \<and> eraseFile fileExample = eraseFile fileExample
   \<and> (\<exists>s1 s2. loadWorkspaceHooks (Some settingsExample) fileExample commitService = Inr s1
         \<and> loadWorkspaceHooks (Some settingsExample) fileExample s1 = Inr s2
         \<and> getHooks PreCommit s2 = getHooks PreCommit s1)"
proof -
  have a: "eraseSettings (Some settingsExample) = eraseSettings (Some settingsExample)"
    by simp
  have b: "eraseFile fileExampleAgain = eraseFile fileExample"
    by (simp add: fileExampleAgain_def fileExample_def)
  have c: "fileExampleAgain \<noteq> fileExample"
    by (simp add: fileExampleAgain_def fileExample_def)
  have b': "eraseFile fileExample = eraseFile fileExample"
    by simp
  have 1: "\<exists>s1 s2. loadWorkspaceHooks (Some settingsExample) fileExample commitService = Inr s1
         \<and> loadWorkspaceHooks (Some settingsExample) fileExampleAgain s1 = Inr s2
         \<and> map snd (getHooks PreCommit s2) = map snd (getHooks PreCommit s1)"
    using reload_is_idempotent[OF a b, of commitService] by blast
  have 2: "\<exists>s1 s2. loadWorkspaceHooks (Some settingsExample) fileExample commitService = Inr s1
         \<and> loadWorkspaceHooks (Some settingsExample) fileExample s1 = Inr s2
         \<and> getHooks PreCommit s2 = getHooks PreCommit s1"
    using reload_is_idempotent[OF a b', of commitService] by blast
  show ?thesis
    using 1 2 a b b' c by blast
qed

text \<open>
  C3, as amended. Let there be no settings value (\<^verbatim>\<open>getValue('hooks')\<close> is \<^verbatim>\<open>undefined\<close>).
  \<^verbatim>\<open>loadWorkspaceHooks\<close> returns. When the hooks file provides hooks (it parses to an object
  with an object under \<^verbatim>\<open>hooks\<close>), the list of every event type is afterwards exactly what
  the file contributes to it, freshly parsed, and is the same from whatever registry
  the reload starts: no configuration registered before survives. When there is no
  workspace folder, or the file cannot be read or parsed, or it has no object under
  \<^verbatim>\<open>hooks\<close>, the reload leaves the registry as it is. What a reload does with a settings value
  is left out.
\<close>

theorem reload_from_the_file_alone:
  "\<exists>s'. loadWorkspaceHooks None hf s = Inr s' \<and>
     (if fileProvides hf
      then (\<forall>ty. getHooks ty s' = fromFile ty hf)
         \<and> (\<forall>t. \<exists>t'. loadWorkspaceHooks None hf t = Inr t' \<and> (\<forall>ty. getHooks ty t' = getHooks ty s'))
      else s' = s)"
proof -
  have none: "\<not> settingsProvide None"
    by (simp add: settingsProvide_def)
  from loadWorkspaceHooks_view[of None hf s] none obtain s' where
    1: "loadWorkspaceHooks None hf s = Inr s'" and
    v1: "if fileProvides hf then (\<forall>ty. getHooks ty s' = fromFile ty hf) else s' = s"
    by (auto split: if_splits)
  have other: "\<exists>t'. loadWorkspaceHooks None hf t = Inr t' \<and> (\<forall>ty. getHooks ty t' = getHooks ty s')"
    if "fileProvides hf" for t
    using loadWorkspaceHooks_view[of None hf t] v1 that by (auto split: if_splits)
  show ?thesis
    using 1 v1 other by (auto split: if_splits)
qed

theorem reload_from_the_file_alone_witness:
  "fileProvides fileExample
   \<and> (\<exists>s'. loadWorkspaceHooks None fileExample commitService = Inr s'
         \<and> getHooks PreCommit s' = fromFile PreCommit fileExample
         \<and> getHooks FileSave s' = fromFile FileSave fileExample)
   \<and> fromFile PreCommit fileExample = [fileHook]
   \<and> \<not> fileProvides hooklessFile
   \<and> loadWorkspaceHooks None hooklessFile commitService = Inr commitService
   \<and> \<not> fileProvides Unreadable
   \<and> loadWorkspaceHooks None Unreadable commitService = Inr commitService"
proof -
  have b: "\<not> fileProvides Unreadable"
    by (simp add: fileProvides_def)
  have 1: "\<exists>s'. loadWorkspaceHooks None fileExample commitService = Inr s'
         \<and> getHooks PreCommit s' = fromFile PreCommit fileExample
         \<and> getHooks FileSave s' = fromFile FileSave fileExample"
    using reload_from_the_file_alone[of fileExample commitService] fileExample_provides
    by (auto split: if_splits)
  have 2: "loadWorkspaceHooks None hooklessFile commitService = Inr commitService"
    using reload_from_the_file_alone[of hooklessFile commitService] hooklessFile_provides
    by (auto split: if_splits)
  have 3: "loadWorkspaceHooks None Unreadable commitService = Inr commitService"
    using reload_from_the_file_alone[of Unreadable commitService] b
    by (auto split: if_splits)
  show ?thesis
    using 1 2 3 b fileExample_provides fileExample_hooks hooklessFile_provides by blast
qed

text \<open>
  C3 as stated fails: with no settings value and no workspace folder, or a hooks file that
  cannot be read, or one without \<^verbatim>\<open>hooks\<close>, nothing is parsed from the sources, and the
  three hooks registered before the reload are still there after it.
\<close>

theorem registered_hooks_survive_reload_counterexample:
  "loadWorkspaceHooks None NoWorkspaceFolder commitService = Inr commitService
   \<and> loadWorkspaceHooks None Unreadable commitService = Inr commitService
   \<and> loadWorkspaceHooks None hooklessFile commitService = Inr commitService
   \<and> getHooks PreCommit commitService = [formatHook, lintHook, scanHook]
   \<and> fromFile PreCommit NoWorkspaceFolder = []
   \<and> fromFile PreCommit Unreadable = []
   \<and> fromFile PreCommit hooklessFile = []"
  by (simp add: loadWorkspaceHooks_def loadHooksFromConfig_def hooklessFile_def
      commitService_hooks fromFile_def contributed_def)

text \<open>
  C2 fails on the code. The settings and the hooks file both provide a hook for
  \<^verbatim>\<open>pre-commit\<close>; after \<^verbatim>\<open>loadWorkspaceHooks\<close> the list holds the hook of the file alone, not the
  hook of the settings followed by it: loading the file clears what loading the settings
  has registered.
\<close>

theorem workspace_file_replaces_settings:
  "fromSettings PreCommit (Some settingsExample) = [globalHook]
   \<and> fromFile PreCommit fileExample = [fileHook]
   \<and> (\<exists>s'. loadWorkspaceHooks (Some settingsExample) fileExample newHooksService = Inr s'
         \<and> getHooks PreCommit s' = [fileHook])
   \<and> [fileHook] \<noteq> [globalHook] @ [fileHook]"
  using loadWorkspaceHooks_view[of "Some settingsExample" fileExample newHooksService]
  by (auto simp: settingsExample_hooks fileExample_hooks fileExample_provides)

end
